theory Spec2Isabelle
  imports Complex_Main "HOL-Library.Product_Lexorder" "HOL-Library.Log_Nat"
begin

section \<open>Values of the host language\<close>

text \<open>
  The sale controller is JavaScript over a document store. A JavaScript number is an IEEE
  754 double: a finite value, one of the two infinities, or \<open>NaN\<close>. A finite value is
  kept as the real number it denotes; the two zeros are one value here, since no
  operation of the controller tells them apart. Object ids are natural numbers: every id
  is well formed.
\<close>

type_synonym objectId = nat

datatype jsnumber = Number real | PosInf | NegInf | NaN

subsection \<open>Rounding to the nearest double\<close>

text \<open>
  \<open>expo x\<close> is the exponent of the power of two at or below \<open>\<bar>x\<bar>\<close>, for \<open>x\<close> other than 0. A
  double has 53 significant bits and an exponent of at least -1022, so near \<open>x\<close> the doubles
  are the multiples of \<open>2\<close> to the power \<open>max (expo x) (-1022) - 52\<close>. The result of an
  operation is the nearest of them, the one with the even multiple when two are as near,
  and an infinity when that reaches \<open>2\<close> to the power 1024.
\<close>

definition expo :: "real \<Rightarrow> int" where
  "expo x = (if 1 \<le> \<bar>x\<bar> then int (floorlog 2 (nat \<lfloor>\<bar>x\<bar>\<rfloor>)) - 1
             else - int (floorlog 2 (nat (\<lceil>1 / \<bar>x\<bar>\<rceil> - 1))))"

definition pow2 :: "int \<Rightarrow> real" where
  "pow2 e = (if 0 \<le> e then 2 ^ nat e else 1 / 2 ^ nat (- e))"

definition roundEven :: "real \<Rightarrow> int" where
  "roundEven x =
     (let n = \<lfloor>x\<rfloor>; r = x - of_int n
      in if r < 1 / 2 then n else if 1 / 2 < r then n + 1 else if even n then n else n + 1)"

definition ulp :: "real \<Rightarrow> real" where
  "ulp x = pow2 (max (expo x) (- 1022) - 52)"

definition fl :: "real \<Rightarrow> jsnumber" where
  "fl x =
     (if x = 0 then Number 0
      else let r = of_int (roundEven (x / ulp x)) * ulp x
           in if pow2 1024 \<le> \<bar>r\<bar> then (if 0 < x then PosInf else NegInf) else Number r)"

subsection \<open>Arithmetic and comparison\<close>

text \<open>
  The operators of the language on numbers: the exact result rounded, with the rules of
  the standard for the infinities and for \<open>NaN\<close> (every comparison with \<open>NaN\<close> is false).
  The only division of the controller is by the constant 100.
\<close>

fun js_lt :: "jsnumber \<Rightarrow> jsnumber \<Rightarrow> bool" where
  "js_lt NaN _ = False"
| "js_lt _ NaN = False"
| "js_lt (Number a) (Number b) = (a < b)"
| "js_lt NegInf b = (b \<noteq> NegInf)"
| "js_lt a PosInf = (a \<noteq> PosInf)"
| "js_lt _ _ = False"

definition js_le :: "jsnumber \<Rightarrow> jsnumber \<Rightarrow> bool" where
  "js_le a b = (a \<noteq> NaN \<and> b \<noteq> NaN \<and> \<not> js_lt b a)"

fun js_add :: "jsnumber \<Rightarrow> jsnumber \<Rightarrow> jsnumber" where
  "js_add NaN _ = NaN"
| "js_add _ NaN = NaN"
| "js_add (Number a) (Number b) = fl (a + b)"
| "js_add PosInf NegInf = NaN"
| "js_add NegInf PosInf = NaN"
| "js_add PosInf _ = PosInf"
| "js_add NegInf _ = NegInf"
| "js_add _ b = b"

fun js_sub :: "jsnumber \<Rightarrow> jsnumber \<Rightarrow> jsnumber" where
  "js_sub NaN _ = NaN"
| "js_sub _ NaN = NaN"
| "js_sub (Number a) (Number b) = fl (a - b)"
| "js_sub PosInf PosInf = NaN"
| "js_sub NegInf NegInf = NaN"
| "js_sub PosInf _ = PosInf"
| "js_sub NegInf _ = NegInf"
| "js_sub _ PosInf = NegInf"
| "js_sub _ _ = PosInf"

fun js_mul :: "jsnumber \<Rightarrow> jsnumber \<Rightarrow> jsnumber" where
  "js_mul NaN _ = NaN"
| "js_mul _ NaN = NaN"
| "js_mul (Number a) (Number b) = fl (a * b)"
| "js_mul (Number a) b = (if a = 0 then NaN else if (0 < a) = (b = PosInf) then PosInf else NegInf)"
| "js_mul a (Number b) = (if b = 0 then NaN else if (0 < b) = (a = PosInf) then PosInf else NegInf)"
| "js_mul a b = (if a = b then PosInf else NegInf)"

fun js_div100 :: "jsnumber \<Rightarrow> jsnumber" where
  "js_div100 (Number a) = fl (a / 100)"
| "js_div100 v = v"

text \<open>
  An optional string field (\<open>None\<close> is \<open>undefined\<close>) is truthy when it is present and
  not empty. An optional numeric field is truthy when it is present and neither zero nor
  \<open>NaN\<close>; \<open>a || b\<close> yields \<open>a\<close> when \<open>a\<close> is truthy and \<open>b\<close> otherwise, and \<open>v || 0\<close> is a
  number.
\<close>

definition truthy :: "string option \<Rightarrow> bool" where
  "truthy v = (case v of None \<Rightarrow> False | Some s \<Rightarrow> s \<noteq> [])"

definition truthyNum :: "jsnumber option \<Rightarrow> bool" where
  "truthyNum v = (case v of None \<Rightarrow> False | Some d \<Rightarrow> d \<noteq> Number 0 \<and> d \<noteq> NaN)"

definition js_or :: "jsnumber option \<Rightarrow> jsnumber option \<Rightarrow> jsnumber option" where
  "js_or a b = (if truthyNum a then a else b)"

definition orZero :: "jsnumber option \<Rightarrow> jsnumber" where
  "orZero v = (if truthyNum v then (case v of Some d \<Rightarrow> d | None \<Rightarrow> Number 0) else Number 0)"

subsection \<open>Decimal strings\<close>

definition digitChar :: "nat \<Rightarrow> char" where
  "digitChar d = ''0123456789'' ! (d mod 10)"

function toString :: "nat \<Rightarrow> string" where
  "toString n = (if n < 10 then [digitChar n] else toString (n div 10) @ [digitChar (n mod 10)])"
  by pat_completeness auto
termination
  by (relation "measure id") auto

declare toString.simps [simp del]

definition padStart :: "nat \<Rightarrow> char \<Rightarrow> string \<Rightarrow> string" where
  "padStart n c s = replicate (n - length s) c @ s"

subsection \<open>Dates\<close>

text \<open>
  A date is kept as its calendar fields, ordered as an instant by the lexicographic
  order of the fields. One reading of the clock serves a whole call.
\<close>

record jsdate =
  year :: nat
  month :: nat
  dayOfMonth :: nat
  msOfDay :: nat

definition instant :: "jsdate \<Rightarrow> nat \<times> nat \<times> nat \<times> nat" where
  "instant d = (year d, month d, dayOfMonth d, msOfDay d)"

definition getFullYear :: "jsdate \<Rightarrow> nat" where
  "getFullYear d = year d"

section \<open>Documents\<close>

text \<open>
  The product and sale schemas, with the fields the controller reads or the validators
  check. A numeric field holds a number of the language; the cast of the schema refuses
  \<open>NaN\<close>, so a document that was saved holds none.
\<close>

record product =
  p_code :: string
  p_name :: string
  p_price :: jsnumber
  p_cost :: jsnumber
  p_stock :: jsnumber
  p_category :: string
  p_discount :: "jsnumber option"

record saleItem =
  si_product :: objectId
  si_productCode :: string
  si_productName :: string
  si_quantity :: jsnumber
  si_unitPrice :: jsnumber
  si_discount :: jsnumber
  si_subtotal :: jsnumber

record sale =
  s_id :: objectId
  saleNumber :: string
  customer :: "objectId option"
  items :: "saleItem list"
  totalAmount :: jsnumber
  paymentMethod :: string
  paymentStatus :: string
  seller :: objectId
  s_notes :: "string option"
  tax :: jsnumber
  createdAt :: jsdate

definition paymentMethods :: "string list" where
  "paymentMethods = [''efectivo'', ''tarjeta_credito'', ''tarjeta_debito'', ''transferencia'']"

definition paymentStatuses :: "string list" where
  "paymentStatuses = [''pendiente'', ''completado'', ''cancelado'']"

text \<open>The categories of a product; the accented letters are the two bytes of their
  encoding.\<close>

definition productCategories :: "string list" where
  "productCategories =
     [''l'' @ [CHR 0xC3, CHR 0xA1] @ ''cteos'', ''bebidas'', ''limpieza'', ''frutas'', ''verduras'',
      ''carnes'', ''panader'' @ [CHR 0xC3, CHR 0xAD] @ ''a'', ''otros'']"

text \<open>
  What the casts and the validators of the two schemas accept. Saving a document
  validates the whole document, the paths read from the store as well as the paths the
  call has set: a required string is not empty, a number is not \<open>NaN\<close> and respects its
  bounds, an enumerated string belongs to its enumeration.
\<close>

definition validProduct :: "product \<Rightarrow> bool" where
  "validProduct pr =
     (p_code pr \<noteq> [] \<and> p_name pr \<noteq> [] \<and> js_le (Number 0) (p_price pr)
      \<and> js_le (Number 0) (p_cost pr) \<and> js_le (Number 0) (p_stock pr)
      \<and> p_category pr \<in> set productCategories
      \<and> (case p_discount pr of
            None \<Rightarrow> True
          | Some d \<Rightarrow> js_le (Number 0) d \<and> js_le d (Number 100)))"

definition validItem :: "saleItem \<Rightarrow> bool" where
  "validItem l =
     (js_le (Number 1) (si_quantity l) \<and> js_le (Number 0) (si_unitPrice l)
      \<and> js_le (Number 0) (si_discount l) \<and> js_le (si_discount l) (Number 100)
      \<and> si_subtotal l \<noteq> NaN)"

definition validSale :: "sale \<Rightarrow> bool" where
  "validSale s =
     (saleNumber s \<noteq> [] \<and> list_all validItem (items s) \<and> totalAmount s \<noteq> NaN
      \<and> tax s \<noteq> NaN
      \<and> paymentMethod s \<in> set paymentMethods \<and> paymentStatus s \<in> set paymentStatuses)"

text \<open>The request body of a sale creation, and one of its items, as the client sends them.
  The quantity of an item is the number the language coerces the field to, \<open>NaN\<close> when
  the field is not numeric; the discount of an item is the number the request carries,
  when it carries one.\<close>

record item =
  i_product :: objectId
  i_quantity :: jsnumber
  i_discount :: "jsnumber option"

record saleData =
  sd_items :: "item list option"
  sd_paymentMethod :: "string option"
  sd_paymentStatus :: "string option"
  sd_customer :: "objectId option"
  sd_notes :: "string option"
  sd_tax :: "jsnumber option"

record user =
  u_id :: objectId
  role :: string

text \<open>What a call reads from its environment: the clock and the id of a new document.\<close>

record env =
  now :: jsdate
  newId :: objectId

section \<open>The store and its transactions\<close>

record db =
  products :: "objectId \<rightharpoonup> product"
  sales :: "sale list"

text \<open>
  A session holds the committed state and the state the transaction sees. Aborting, or
  ending the session with the transaction open, discards the writes; committing
  publishes them.
\<close>

record session =
  committed :: db
  working :: db

definition startTransaction :: "db \<Rightarrow> session" where
  "startTransaction st = \<lparr>committed = st, working = st\<rparr>"

definition abortTransaction :: "session \<Rightarrow> db" where
  "abortTransaction ses = committed ses"

definition commitTransaction :: "session \<Rightarrow> db" where
  "commitTransaction ses = working ses"

definition endSession :: "session \<Rightarrow> db" where
  "endSession ses = committed ses"

text \<open>
  The replies of the controller, one constructor for each error reply it sends, with the
  status code of each and its place in the error taxonomy.
\<close>

datatype error =
    ItemsRequired
  | PaymentMethodRequired
  | PaymentStatusRequired
  | ProductNotFound objectId
  | SaleNotFound
  | InsufficientStock string jsnumber jsnumber
  | CancelledSaleImmutable
  | AlreadyCancelled
  | QuantityRequired
  | StockWouldBeNegative
  | InvalidOperation
  | ServerError

fun httpStatus :: "error \<Rightarrow> nat" where
  "httpStatus (ProductNotFound _) = 404"
| "httpStatus SaleNotFound = 404"
| "httpStatus ServerError = 500"
| "httpStatus _ = 400"

datatype errorKind = ValidationError | NotFound | InsufficientStockError | InvalidState | StorageFailure

fun kind :: "error \<Rightarrow> errorKind" where
  "kind ItemsRequired = ValidationError"
| "kind PaymentMethodRequired = ValidationError"
| "kind PaymentStatusRequired = ValidationError"
| "kind (ProductNotFound _) = NotFound"
| "kind SaleNotFound = NotFound"
| "kind (InsufficientStock _ _ _) = InsufficientStockError"
| "kind CancelledSaleImmutable = InvalidState"
| "kind AlreadyCancelled = InvalidState"
| "kind QuantityRequired = ValidationError"
| "kind StockWouldBeNegative = InsufficientStockError"
| "kind InvalidOperation = ValidationError"
| "kind ServerError = StorageFailure"

text \<open>
  \<open>product.stock = v; product.save()\<close>: the schema validates the product with its
  new stock; a refused save throws. Inside a transaction the write goes to the state the
  session sees.
\<close>

definition saveProductStock :: "db \<Rightarrow> objectId \<Rightarrow> product \<Rightarrow> jsnumber \<Rightarrow> error + db" where
  "saveProductStock st pid pr v =
     (if validProduct (pr\<lparr>p_stock := v\<rparr>)
      then Inr (st\<lparr>products := (products st)(pid \<mapsto> pr\<lparr>p_stock := v\<rparr>)\<rparr>)
      else Inl ServerError)"

definition saveStock :: "session \<Rightarrow> objectId \<Rightarrow> product \<Rightarrow> jsnumber \<Rightarrow> error + session" where
  "saveStock ses pid pr v =
     (case saveProductStock (working ses) pid pr v of
        Inl e \<Rightarrow> Inl e
      | Inr w \<Rightarrow> Inr (ses\<lparr>working := w\<rparr>))"

definition findById :: "db \<Rightarrow> objectId \<Rightarrow> sale option" where
  "findById st saleId = find (\<lambda>s. s_id s = saleId) (sales st)"

definition countDocuments :: "db \<Rightarrow> nat" where
  "countDocuments st = length (sales st)"

text \<open>
  Saving a new sale: the schema validates the document, and the unique indexes on the id
  and on the sale number refuse a duplicate. A refused save throws.
\<close>

definition saveNewSale :: "session \<Rightarrow> sale \<Rightarrow> error + (sale \<times> session)" where
  "saveNewSale ses s =
     (if \<not> validSale s then Inl ServerError
      else if s_id s \<in> set (map s_id (sales (working ses)))
              \<or> saleNumber s \<in> set (map saleNumber (sales (working ses)))
      then Inl ServerError
      else Inr (s, ses\<lparr>working := (working ses)\<lparr>sales := sales (working ses) @ [s]\<rparr>\<rparr>))"

section \<open>Creating a sale\<close>

definition formatSaleNumber :: "nat \<Rightarrow> nat \<Rightarrow> string" where
  "formatSaleNumber y n = ''V'' @ toString y @ ''-'' @ padStart 3 (CHR ''0'') (toString n)"

definition effectiveDiscount :: "item \<Rightarrow> product \<Rightarrow> jsnumber" where
  "effectiveDiscount it pr = orZero (js_or (i_discount it) (p_discount pr))"

text \<open>The loop over the items of the request, with its two accumulators.\<close>

fun processItems ::
  "session \<Rightarrow> item list \<Rightarrow> jsnumber \<Rightarrow> saleItem list
     \<Rightarrow> error + (session \<times> jsnumber \<times> saleItem list)" where
  "processItems ses [] totalAmt processedItems = Inr (ses, totalAmt, processedItems)"
| "processItems ses (it # rest) totalAmt processedItems =
     (case products (working ses) (i_product it) of
        None \<Rightarrow> Inl (ProductNotFound (i_product it))
      | Some pr \<Rightarrow>
          if js_lt (p_stock pr) (i_quantity it)
          then Inl (InsufficientStock (p_name pr) (p_stock pr) (i_quantity it))
          else
            let discount = effectiveDiscount it pr;
                subtotal = js_mul (js_mul (i_quantity it) (p_price pr))
                                  (js_sub (Number 1) (js_div100 discount));
                line = \<lparr>si_product = i_product it, si_productCode = p_code pr,
                        si_productName = p_name pr, si_quantity = i_quantity it,
                        si_unitPrice = p_price pr, si_discount = discount,
                        si_subtotal = subtotal\<rparr>
            in (case saveStock ses (i_product it) pr (js_sub (p_stock pr) (i_quantity it)) of
                  Inl e \<Rightarrow> Inl e
                | Inr ses' \<Rightarrow>
                    processItems ses' rest (js_add totalAmt subtotal) (processedItems @ [line])))"

text \<open>The document that \<open>new Sale\<close> builds from the request and the results of the loop.\<close>

definition newSale ::
  "env \<Rightarrow> user \<Rightarrow> saleData \<Rightarrow> string \<Rightarrow> saleItem list \<Rightarrow> jsnumber \<Rightarrow> sale" where
  "newSale e u saleData number processedItems totalAmt =
     \<lparr>s_id = newId e, saleNumber = number, customer = sd_customer saleData,
      items = processedItems, totalAmount = totalAmt,
      paymentMethod = (case sd_paymentMethod saleData of Some m \<Rightarrow> m | None \<Rightarrow> []),
      paymentStatus = (if truthy (sd_paymentStatus saleData)
                       then (case sd_paymentStatus saleData of Some v \<Rightarrow> v | None \<Rightarrow> [])
                       else ''pendiente''),
      seller = u_id u, s_notes = sd_notes saleData, tax = orZero (sd_tax saleData),
      createdAt = now e\<rparr>"

text \<open>
  The controller. The two checks of the request come first and return before any read or
  write; an error reply inside the loop aborts the transaction, and so does the handler
  of anything thrown (a refused save, or reading the id of an absent principal).
\<close>

definition createSale :: "env \<Rightarrow> user option \<Rightarrow> saleData \<Rightarrow> db \<Rightarrow> (error + sale) \<times> db" where
  "createSale e usr saleData st =
     (let ses = startTransaction st in
      case sd_items saleData of
        None \<Rightarrow> (Inl ItemsRequired, endSession ses)
      | Some its \<Rightarrow>
          if its = [] then (Inl ItemsRequired, endSession ses)
          else if \<not> truthy (sd_paymentMethod saleData)
          then (Inl PaymentMethodRequired, endSession ses)
          else
            let yr = getFullYear (now e);
                salesCount = countDocuments (working ses);
                number = formatSaleNumber yr (salesCount + 1)
            in (case processItems ses its (Number 0) [] of
                  Inl err \<Rightarrow> (Inl err, abortTransaction ses)
                | Inr (ses', totalAmt, processedItems) \<Rightarrow>
                    (case usr of
                       None \<Rightarrow> (Inl ServerError, abortTransaction ses')
                     | Some u \<Rightarrow>
                         (case saveNewSale ses'
                                 (newSale e u saleData number processedItems totalAmt) of
                            Inl err \<Rightarrow> (Inl ServerError, abortTransaction ses')
                          | Inr (s, ses'') \<Rightarrow> (Inr s, commitTransaction ses'')))))"

section \<open>Changing the payment status\<close>

text \<open>
  \<open>sale.save()\<close> of a stored sale validates the document, with the new status and
  the new method in it, and writes it back in the place of the one document that has its
  id, the one that \<open>findById\<close> returned. A refused save throws.
\<close>

fun replaceFirst :: "sale \<Rightarrow> sale list \<Rightarrow> sale list" where
  "replaceFirst s' [] = []"
| "replaceFirst s' (s # ss) = (if s_id s = s_id s' then s' # ss else s # replaceFirst s' ss)"

definition replaceSale :: "db \<Rightarrow> sale \<Rightarrow> db" where
  "replaceSale st s' = st\<lparr>sales := replaceFirst s' (sales st)\<rparr>"

definition updatePaymentStatus ::
  "objectId \<Rightarrow> string option \<Rightarrow> string option \<Rightarrow> db \<Rightarrow> (error + sale) \<times> db" where
  "updatePaymentStatus saleId newStatus newMethod st =
     (case newStatus of
        None \<Rightarrow> (Inl PaymentStatusRequired, st)
      | Some status \<Rightarrow>
          if status = [] then (Inl PaymentStatusRequired, st)
          else
            (case findById st saleId of
               None \<Rightarrow> (Inl SaleNotFound, st)
             | Some s \<Rightarrow>
                 if paymentStatus s = ''cancelado'' then (Inl CancelledSaleImmutable, st)
                 else
                   let s1 = s\<lparr>paymentStatus := status\<rparr>;
                       s2 = (case newMethod of
                               None \<Rightarrow> s1
                             | Some m \<Rightarrow> if m = [] then s1 else s1\<lparr>paymentMethod := m\<rparr>)
                   in if validSale s2 then (Inr s2, replaceSale st s2)
                      else (Inl ServerError, st)))"

section \<open>Cancelling a sale\<close>

text \<open>The loop that gives the stock back, item by item; an item whose product is gone is
  passed over. Anything thrown by a stock write, or by the save of the sale at the end,
  reaches the handler, which aborts.\<close>

fun restoreStock :: "session \<Rightarrow> saleItem list \<Rightarrow> error + session" where
  "restoreStock ses [] = Inr ses"
| "restoreStock ses (it # rest) =
     (case products (working ses) (si_product it) of
        Some pr \<Rightarrow>
          (case saveStock ses (si_product it) pr
                  (js_add (p_stock pr) (si_quantity it)) of
             Inl e \<Rightarrow> Inl e
           | Inr ses' \<Rightarrow> restoreStock ses' rest)
      | None \<Rightarrow> restoreStock ses rest)"

definition cancelSale :: "objectId \<Rightarrow> db \<Rightarrow> (error + sale) \<times> db" where
  "cancelSale saleId st =
     (let ses = startTransaction st in
      case findById (working ses) saleId of
        None \<Rightarrow> (Inl SaleNotFound, abortTransaction ses)
      | Some s \<Rightarrow>
          if paymentStatus s = ''cancelado'' then (Inl AlreadyCancelled, abortTransaction ses)
          else
            (case restoreStock ses (items s) of
               Inl e \<Rightarrow> (Inl ServerError, abortTransaction ses)
             | Inr ses' \<Rightarrow>
                 let s' = s\<lparr>paymentStatus := ''cancelado''\<rparr>;
                     ses'' = ses'\<lparr>working := replaceSale (working ses') s'\<rparr>
                 in if validSale s' then (Inr s', commitTransaction ses'')
                    else (Inl ServerError, abortTransaction ses')))"

section \<open>Adjusting the stock of a product\<close>

text \<open>
  The stock adjustment of the product controller, the other writer of the stock. The
  quantity of the body is absent, or the number the language coerces it to; the
  operation defaults to \<open>add\<close>. This save runs outside any transaction.
\<close>

definition adjustStock ::
  "objectId \<Rightarrow> jsnumber option \<Rightarrow> string option \<Rightarrow> db \<Rightarrow> (error + product) \<times> db" where
  "adjustStock productId quantity operation st =
     (case quantity of
        None \<Rightarrow> (Inl QuantityRequired, st)
      | Some q \<Rightarrow>
          if q = NaN then (Inl QuantityRequired, st)
          else
            (case products st productId of
               None \<Rightarrow> (Inl (ProductNotFound productId), st)
             | Some pr \<Rightarrow>
                 let oper = (case operation of None \<Rightarrow> ''add'' | Some v \<Rightarrow> v);
                     finish = (\<lambda>newStock.
                       case saveProductStock st productId pr newStock of
                         Inl e \<Rightarrow> (Inl ServerError, st)
                       | Inr st' \<Rightarrow> (Inr (pr\<lparr>p_stock := newStock\<rparr>), st'))
                 in if oper = ''add'' then finish (js_add (p_stock pr) q)
                    else if oper = ''subtract''
                    then (if js_lt (js_sub (p_stock pr) q) (Number 0)
                          then (Inl StockWouldBeNegative, st)
                          else finish (js_sub (p_stock pr) q))
                    else if oper = ''set'' then finish q
                    else (Inl InvalidOperation, st)))"

section \<open>Listing and statistics\<close>

text \<open>
  A date parameter of the query string after \<open>new Date\<close>: absent, not a date, or a date.
  A filter that holds an invalid date makes the store's query throw.
\<close>

datatype dateArg = NoDate | BadDate | GoodDate jsdate

record query =
  q_startDate :: dateArg
  q_endDate :: dateArg
  q_paymentStatus :: "string option"
  q_paymentMethod :: "string option"
  q_customerId :: "objectId option"
  q_sellerId :: "objectId option"

datatype statusCond = Eq string | Ne string | Exists

record filters =
  f_gte :: dateArg
  f_lte :: dateArg
  f_paymentStatus :: "statusCond option"
  f_paymentMethod :: "string option"
  f_customer :: "objectId option"
  f_seller :: "objectId option"

definition noFilters :: filters where
  "noFilters = \<lparr>f_gte = NoDate, f_lte = NoDate, f_paymentStatus = None,
                 f_paymentMethod = None, f_customer = None, f_seller = None\<rparr>"

definition castable :: "filters \<Rightarrow> bool" where
  "castable f = (f_gte f \<noteq> BadDate \<and> f_lte f \<noteq> BadDate)"

definition matches :: "filters \<Rightarrow> sale \<Rightarrow> bool" where
  "matches f s =
     ((case f_gte f of GoodDate d \<Rightarrow> instant d \<le> instant (createdAt s) | _ \<Rightarrow> True)
      \<and> (case f_lte f of GoodDate d \<Rightarrow> instant (createdAt s) \<le> instant d | _ \<Rightarrow> True)
      \<and> (case f_paymentStatus f of
            None \<Rightarrow> True
          | Some (Eq v) \<Rightarrow> paymentStatus s = v
          | Some (Ne v) \<Rightarrow> paymentStatus s \<noteq> v
          | Some Exists \<Rightarrow> True)
      \<and> (case f_paymentMethod f of None \<Rightarrow> True | Some m \<Rightarrow> paymentMethod s = m)
      \<and> (case f_customer f of None \<Rightarrow> True | Some c \<Rightarrow> customer s = Some c)
      \<and> (case f_seller f of None \<Rightarrow> True | Some u \<Rightarrow> seller s = u))"

text \<open>
  The ids of a filter are strings: a parameter of the query string, or the id in the
  token of the caller. \<open>find\<close> and \<open>countDocuments\<close> cast the filter to the schema,
  which makes object ids of them: \<open>matches\<close> is the filter after that cast.
  \<open>aggregate\<close> sends its pipeline as it is, and a string is equal to no stored object
  id: a \<open>$match\<close> stage whose filter names a customer or a seller matches no sale.
\<close>

definition matchStage :: "filters \<Rightarrow> sale \<Rightarrow> bool" where
  "matchStage f s = (f_customer f = None \<and> f_seller f = None \<and> matches f s)"

text \<open>The filter object of the listing, built by the assignments of the controller in
  their order: the seller of the query first, the caller's own id over it.\<close>

definition salesFilters :: "user option \<Rightarrow> query \<Rightarrow> filters" where
  "salesFilters usr q =
     (let f1 = (if q_startDate q \<noteq> NoDate then noFilters\<lparr>f_gte := q_startDate q\<rparr> else noFilters);
          f2 = (if q_endDate q \<noteq> NoDate then f1\<lparr>f_lte := q_endDate q\<rparr> else f1);
          f3 = (if truthy (q_paymentStatus q)
                then f2\<lparr>f_paymentStatus := map_option Eq (q_paymentStatus q)\<rparr> else f2);
          f4 = (if truthy (q_paymentMethod q)
                then f3\<lparr>f_paymentMethod := q_paymentMethod q\<rparr> else f3);
          f5 = (if q_customerId q \<noteq> None then f4\<lparr>f_customer := q_customerId q\<rparr> else f4);
          f6 = (if q_sellerId q \<noteq> None then f5\<lparr>f_seller := q_sellerId q\<rparr> else f5)
      in case usr of
           None \<Rightarrow> f6
         | Some u \<Rightarrow> if role u \<noteq> ''admin'' then f6\<lparr>f_seller := Some (u_id u)\<rparr> else f6)"

definition getAllSales :: "user option \<Rightarrow> query \<Rightarrow> db \<Rightarrow> error + sale list" where
  "getAllSales usr q st =
     (let f = salesFilters usr q in
      if \<not> castable f then Inl ServerError
      else Inr (rev (sort_key (\<lambda>s. instant (createdAt s)) (filter (matches f) (sales st)))))"

text \<open>
  The aggregation stages. A \<open>$group\<close> stage yields one group for each key, here in the
  order in which \<open>remdups\<close> leaves the keys, and its \<open>$sum\<close> is taken as the running
  sum of the language over the documents of the group, from 0. A descending \<open>$sort\<close> on a
  number is a stable sort in the order of the store on numbers: \<open>NaN\<close> below every
  number.
\<close>

definition storeSum :: "jsnumber list \<Rightarrow> jsnumber" where
  "storeSum vs = foldl js_add (Number 0) vs"

fun numKey :: "jsnumber \<Rightarrow> nat \<times> real" where
  "numKey NaN = (0, 0)"
| "numKey NegInf = (1, 0)"
| "numKey (Number r) = (2, r)"
| "numKey PosInf = (3, 0)"

definition descending :: "('a \<Rightarrow> jsnumber) \<Rightarrow> 'a list \<Rightarrow> 'a list" where
  "descending f xs = rev (sort_key (\<lambda>x. numKey (f x)) (rev xs))"

definition group :: "('a \<Rightarrow> 'k) \<Rightarrow> 'a list \<Rightarrow> ('k \<times> 'a list) list" where
  "group f xs = map (\<lambda>k. (k, filter (\<lambda>x. f x = k) xs)) (remdups (map f xs))"

record 'k groupStat =
  g_id :: 'k
  g_count :: nat
  g_total :: jsnumber

record productStat =
  productId :: objectId
  productName :: string
  totalQuantity :: jsnumber
  ps_totalAmount :: jsnumber

record dayStat =
  date :: string
  d_count :: nat
  d_total :: jsnumber

record stats =
  totalSales :: nat
  st_totalAmount :: jsnumber
  st_paymentMethods :: "string groupStat list"
  st_paymentStatus :: "string groupStat list"
  topProducts :: "productStat list"
  salesByDay :: "dayStat list"

definition saleGroup :: "'k \<times> sale list \<Rightarrow> 'k groupStat" where
  "saleGroup g = \<lparr>g_id = fst g, g_count = length (snd g),
                   g_total = storeSum (map totalAmount (snd g))\<rparr>"

definition statsFilters :: "user option \<Rightarrow> query \<Rightarrow> filters" where
  "statsFilters usr q =
     (let f0 = noFilters\<lparr>f_paymentStatus := Some (Ne ''cancelado'')\<rparr>;
          f1 = (if q_startDate q \<noteq> NoDate then f0\<lparr>f_gte := q_startDate q\<rparr> else f0);
          f2 = (if q_endDate q \<noteq> NoDate then f1\<lparr>f_lte := q_endDate q\<rparr> else f1)
      in case usr of
           None \<Rightarrow> f2
         | Some u \<Rightarrow> if role u \<noteq> ''admin'' then f2\<lparr>f_seller := Some (u_id u)\<rparr> else f2)"

definition paymentMethodStats :: "filters \<Rightarrow> sale list \<Rightarrow> string groupStat list" where
  "paymentMethodStats f ss =
     descending g_total (map saleGroup (group paymentMethod (filter (matchStage f) ss)))"

definition paymentStatusStats :: "filters \<Rightarrow> sale list \<Rightarrow> string groupStat list" where
  "paymentStatusStats f ss =
     map saleGroup
       (group paymentStatus (filter (matchStage (f\<lparr>f_paymentStatus := Some Exists\<rparr>)) ss))"

definition topProductStats :: "filters \<Rightarrow> sale list \<Rightarrow> productStat list" where
  "topProductStats f ss =
     take 5 (descending totalQuantity
       (map (\<lambda>g. \<lparr>productId = fst (fst g), productName = snd (fst g),
                   totalQuantity = storeSum (map si_quantity (snd g)),
                   ps_totalAmount = storeSum (map si_subtotal (snd g))\<rparr>)
            (group (\<lambda>l. (si_product l, si_productName l))
                   (concat (map items (filter (matchStage f) ss))))))"

definition salesByDayStats :: "filters \<Rightarrow> sale list \<Rightarrow> dayStat list" where
  "salesByDayStats f ss =
     map (\<lambda>g. \<lparr>date = toString (fst (g_id g)) @ ''-''
                        @ padStart 2 (CHR ''0'') (toString (fst (snd (g_id g)))) @ ''-''
                        @ padStart 2 (CHR ''0'') (toString (snd (snd (g_id g)))),
                d_count = g_count g, d_total = g_total g\<rparr>)
         (take 30 (rev (sort_key g_id
            (map saleGroup
               (group (\<lambda>s. (year (createdAt s), month (createdAt s), dayOfMonth (createdAt s)))
                      (filter (matchStage f) ss))))))"

definition getSalesStats :: "user option \<Rightarrow> query \<Rightarrow> db \<Rightarrow> error + stats" where
  "getSalesStats usr q st =
     (let f = statsFilters usr q in
      if \<not> castable f then Inl ServerError
      else
        let counted = filter (matches f) (sales st);
            matched = filter (matchStage f) (sales st)
        in Inr \<lparr>totalSales = length counted,
                st_totalAmount = (if matched \<noteq> [] then storeSum (map totalAmount matched)
                                  else Number 0),
                st_paymentMethods = paymentMethodStats f (sales st),
                st_paymentStatus = paymentStatusStats f (sales st),
                topProducts = topProductStats f (sales st),
                salesByDay = salesByDayStats f (sales st)\<rparr>)"

section \<open>Sequences of calls\<close>

text \<open>A call of one of the operations that write the store, and the store after a call and
  after a sequence of calls.\<close>

datatype call =
    CreateSale env "user option" saleData
  | UpdatePaymentStatus objectId "string option" "string option"
  | CancelSale objectId
  | AdjustStock objectId "jsnumber option" "string option"

fun perform :: "call \<Rightarrow> db \<Rightarrow> db" where
  "perform (CreateSale e usr saleData) st = snd (createSale e usr saleData st)"
| "perform (UpdatePaymentStatus saleId newStatus newMethod) st =
     snd (updatePaymentStatus saleId newStatus newMethod st)"
| "perform (CancelSale saleId) st = snd (cancelSale saleId st)"
| "perform (AdjustStock pid quantity operation) st = snd (adjustStock pid quantity operation st)"

definition performAll :: "call list \<Rightarrow> db \<Rightarrow> db" where
  "performAll cs st = foldl (\<lambda>s c. perform c s) st cs"

section \<open>Notions used in the statements\<close>

text \<open>
  The stock of a product after the items of a request have taken their quantities from
  it, one after the other, and after the lines of a sale have given theirs back: the
  subtractions of the creation and the additions of the cancellation, in the order of the
  items.
\<close>

definition taken :: "jsnumber \<Rightarrow> item list \<Rightarrow> objectId \<Rightarrow> jsnumber" where
  "taken stock its pid = foldl js_sub stock (map i_quantity (filter (\<lambda>it. i_product it = pid) its))"

definition restored :: "jsnumber \<Rightarrow> saleItem list \<Rightarrow> objectId \<Rightarrow> jsnumber" where
  "restored stock ls pid = foldl js_add stock (map si_quantity (filter (\<lambda>l. si_product l = pid) ls))"

text \<open>
  A whole number of magnitude at most \<open>2\<close> to the power 53, the range in which whole numbers
  are doubles; and the real number that a finite number holds.
\<close>

definition wholeNumber :: "jsnumber \<Rightarrow> bool" where
  "wholeNumber v = (case v of Number r \<Rightarrow> of_int \<lfloor>r\<rfloor> = r \<and> \<bar>r\<bar> \<le> 2 ^ 53 | _ \<Rightarrow> False)"

definition realOf :: "jsnumber \<Rightarrow> real" where
  "realOf v = (case v of Number r \<Rightarrow> r | _ \<Rightarrow> 0)"

text \<open>The quantities that the lines of a sale hold of a product, added as real numbers.\<close>

definition returned :: "saleItem list \<Rightarrow> objectId \<Rightarrow> real" where
  "returned ls pid = sum_list (map (\<lambda>l. realOf (si_quantity l)) (filter (\<lambda>l. si_product l = pid) ls))"

text \<open>The plain object the loop of the creation pushes for an item and its product.\<close>

definition draftLine :: "item \<Rightarrow> product \<Rightarrow> saleItem" where
  "draftLine it pr =
     \<lparr>si_product = i_product it, si_productCode = p_code pr, si_productName = p_name pr,
      si_quantity = i_quantity it, si_unitPrice = p_price pr,
      si_discount = effectiveDiscount it pr,
      si_subtotal = js_mul (js_mul (i_quantity it) (p_price pr))
                           (js_sub (Number 1) (js_div100 (effectiveDiscount it pr)))\<rparr>"

text \<open>
  The discount rule in the words of the specification: the override of the item when one
  is supplied (an override of 0 included), else the discount of the product when present,
  else 0. The subtotal in the words of the specification: the product of the real
  numbers.
\<close>

definition specDiscount :: "item \<Rightarrow> product \<Rightarrow> jsnumber" where
  "specDiscount it pr =
     (case i_discount it of
        Some d \<Rightarrow> d
      | None \<Rightarrow> (case p_discount pr of Some d \<Rightarrow> d | None \<Rightarrow> Number 0))"

definition specSubtotal :: "real \<Rightarrow> real \<Rightarrow> real \<Rightarrow> real" where
  "specSubtotal quantity unitPrice discount = quantity * unitPrice * (1 - discount / 100)"

text \<open>
  A number is a double when rounding leaves it as it is; the numbers that reach the
  controller, from the store or from a request, are doubles. A store whose stocks are
  doubles.
\<close>

definition isDouble :: "jsnumber \<Rightarrow> bool" where
  "isDouble v = (case v of Number r \<Rightarrow> fl r = Number r | _ \<Rightarrow> True)"

definition stockDoubles :: "db \<Rightarrow> bool" where
  "stockDoubles st = (\<forall>pid pr. products st pid = Some pr \<longrightarrow> isDouble (p_stock pr))"

text \<open>A call whose stock quantity, when it has one, is a double.\<close>

definition doubleCall :: "call \<Rightarrow> bool" where
  "doubleCall c = (case c of AdjustStock pid (Some q) operation \<Rightarrow> isDouble q | _ \<Rightarrow> True)"

text \<open>
  Reading a decimal string back, and the sequence part of a sale number: the digits after
  the first hyphen. A ledger is sequenced when the sequence part of each sale is at most
  its position, counted from 1.
\<close>

definition digitVal :: "char \<Rightarrow> nat" where
  "digitVal c = of_char c - 48"

definition fromDigits :: "string \<Rightarrow> nat" where
  "fromDigits s = foldl (\<lambda>a c. 10 * a + digitVal c) 0 s"

definition seqOf :: "string \<Rightarrow> nat" where
  "seqOf num = fromDigits (drop 1 (dropWhile (\<lambda>c. c \<noteq> CHR ''-'') num))"

definition sequenced :: "sale list \<Rightarrow> bool" where
  "sequenced ss = (\<forall>i<length ss. seqOf (saleNumber (ss ! i)) \<le> i + 1)"

text \<open>
  The sale number in the words of the claim: the sequence is one more than the number of
  sales of the current calendar year.
\<close>

definition specSaleNumber :: "nat \<Rightarrow> sale list \<Rightarrow> string" where
  "specSaleNumber yr ss =
     formatSaleNumber yr (length (filter (\<lambda>s. year (createdAt s) = yr) ss) + 1)"

text \<open>A store whose documents all satisfy the validators of their schemas.\<close>

definition schemaValid :: "db \<Rightarrow> bool" where
  "schemaValid st =
     ((\<forall>pid pr. products st pid = Some pr \<longrightarrow> validProduct pr) \<and> list_all validSale (sales st))"

text \<open>The statistics without the group of the cancelled sales in the breakdown by
  payment status.\<close>

definition withoutCancelledGroup :: "stats \<Rightarrow> stats" where
  "withoutCancelledGroup r =
     r\<lparr>st_paymentStatus := filter (\<lambda>g. g_id g \<noteq> ''cancelado'') (st_paymentStatus r)\<rparr>"

section \<open>Reference inputs\<close>

definition exA :: product where
  "exA = \<lparr>p_code = ''A'', p_name = ''Leche'', p_price = Number 1200, p_cost = Number 900, p_stock = Number 10,
           p_category = ''bebidas'', p_discount = Some (Number 0)\<rparr>"

definition exB :: product where
  "exB = \<lparr>p_code = ''B'', p_name = ''Pan'', p_price = Number 950, p_cost = Number 700, p_stock = Number 5,
           p_category = ''otros'', p_discount = None\<rparr>"

definition exC :: product where
  "exC = \<lparr>p_code = ''C'', p_name = ''Cafe'', p_price = Number 1000, p_cost = Number 800, p_stock = Number 4,
           p_category = ''bebidas'', p_discount = Some (Number 10)\<rparr>"

definition exDb :: db where
  "exDb = \<lparr>products = [1 \<mapsto> exA, 2 \<mapsto> exB, 3 \<mapsto> exC], sales = []\<rparr>"

definition exEnv :: env where
  "exEnv = \<lparr>now = \<lparr>year = 2024, month = 3, dayOfMonth = 5, msOfDay = 0\<rparr>, newId = 100\<rparr>"

definition exUser :: user where
  "exUser = \<lparr>u_id = 7, role = ''employee''\<rparr>"

definition exItems :: "item list" where
  "exItems = [\<lparr>i_product = 1, i_quantity = Number 2, i_discount = None\<rparr>,
              \<lparr>i_product = 2, i_quantity = Number 1, i_discount = None\<rparr>]"

definition exData :: saleData where
  "exData = \<lparr>sd_items = Some exItems, sd_paymentMethod = Some ''efectivo'',
             sd_paymentStatus = None, sd_customer = None, sd_notes = None, sd_tax = None\<rparr>"

definition exSale :: "sale" where
  "exSale = \<lparr>s_id = 100, saleNumber = ''V2024-001'', customer = None,
             items = [\<lparr>si_product = 1, si_productCode = ''A'', si_productName = ''Leche'',
                       si_quantity = Number 2, si_unitPrice = Number 1200, si_discount = Number 0,
                       si_subtotal = Number 2400\<rparr>,
                      \<lparr>si_product = 2, si_productCode = ''B'', si_productName = ''Pan'',
                       si_quantity = Number 1, si_unitPrice = Number 950, si_discount = Number 0,
                       si_subtotal = Number 950\<rparr>],
             totalAmount = Number 3350, paymentMethod = ''efectivo'', paymentStatus = ''pendiente'',
             seller = 7, s_notes = None, tax = Number 0, createdAt = now exEnv\<rparr>"

definition exDbSold :: db where
  "exDbSold = \<lparr>products = [1 \<mapsto> exA\<lparr>p_stock := Number 8\<rparr>, 2 \<mapsto> exB\<lparr>p_stock := Number 4\<rparr>, 3 \<mapsto> exC],
               sales = [exSale]\<rparr>"

text \<open>A request for 10 of a product that has 5, after an item that can be served.\<close>

definition exShortItems :: "item list" where
  "exShortItems = [\<lparr>i_product = 1, i_quantity = Number 2, i_discount = None\<rparr>,
                   \<lparr>i_product = 2, i_quantity = Number 10, i_discount = None\<rparr>]"

definition exShort :: saleData where
  "exShort = exData\<lparr>sd_items := Some exShortItems\<rparr>"

text \<open>An item with an override of 0 on a product that has a discount of 10.\<close>

definition exZeroItem :: item where
  "exZeroItem = \<lparr>i_product = 3, i_quantity = Number 1, i_discount = Some (Number 0)\<rparr>"

definition exZero :: saleData where
  "exZero = exData\<lparr>sd_items := Some [exZeroItem]\<rparr>"

text \<open>An item with an override of 7 on the same product: the subtotal that the doubles
  give, for the quantity 1, the price 1000 and the discount 7.\<close>

definition exSeven :: saleData where
  "exSeven = exData\<lparr>sd_items := Some [exZeroItem\<lparr>i_discount := Some (Number 7)\<rparr>]\<rparr>"

definition exSevenSale :: sale where
  "exSevenSale = exSale\<lparr>items := [\<lparr>si_product = 3, si_productCode = ''C'',
                                   si_productName = ''Cafe'', si_quantity = Number 1,
                                   si_unitPrice = Number 1000, si_discount = Number 7,
                                   si_subtotal = Number (8180366510653439 / 8796093022208)\<rparr>],
                       totalAmount := Number (8180366510653439 / 8796093022208)\<rparr>"

text \<open>A request whose two items name the same product.\<close>

definition exTwice :: saleData where
  "exTwice = exData\<lparr>sd_items := Some [\<lparr>i_product = 1, i_quantity = Number 2, i_discount = None\<rparr>,
                                        \<lparr>i_product = 1, i_quantity = Number 3, i_discount = None\<rparr>]\<rparr>"

text \<open>An item with an override of 25 on the same product.\<close>

definition exOverride :: saleData where
  "exOverride = exData\<lparr>sd_items := Some [exZeroItem\<lparr>i_discount := Some (Number 25)\<rparr>]\<rparr>"

definition exZeroSale :: "sale" where
  "exZeroSale = exSale\<lparr>items := [\<lparr>si_product = 3, si_productCode = ''C'', si_productName = ''Cafe'',
                                  si_quantity = Number 1, si_unitPrice = Number 1000, si_discount = Number 10,
                                  si_subtotal = Number 900\<rparr>],
                      totalAmount := Number 900\<rparr>"

definition exOverrideSale :: "sale" where
  "exOverrideSale = exSale\<lparr>items := [\<lparr>si_product = 3, si_productCode = ''C'',
                                      si_productName = ''Cafe'', si_quantity = Number 1,
                                      si_unitPrice = Number 1000, si_discount = Number 25,
                                      si_subtotal = Number 750\<rparr>],
                          totalAmount := Number 750\<rparr>"

text \<open>A request whose second item has a quantity that is not numeric.\<close>

definition exNaNItems :: "item list" where
  "exNaNItems = [\<lparr>i_product = 1, i_quantity = Number 2, i_discount = None\<rparr>,
                 \<lparr>i_product = 2, i_quantity = NaN, i_discount = None\<rparr>]"

definition exNaN :: saleData where
  "exNaN = exData\<lparr>sd_items := Some exNaNItems\<rparr>"

text \<open>A ledger that holds one sale of the year before.\<close>

definition exOldSale :: "sale" where
  "exOldSale = exSale\<lparr>s_id := 99, saleNumber := ''V2023-001'',
                       createdAt := \<lparr>year = 2023, month = 11, dayOfMonth = 20, msOfDay = 0\<rparr>\<rparr>"

definition exOldDb :: db where
  "exOldDb = exDb\<lparr>sales := [exOldSale]\<rparr>"

text \<open>The reference sale once cancelled.\<close>

definition exCancelled :: "sale" where
  "exCancelled = exSale\<lparr>paymentStatus := ''cancelado''\<rparr>"

text \<open>The reference sale as a script could have written it to the store, past the
  validators: its first item has the quantity 0.\<close>

definition exLoose :: "sale" where
  "exLoose = exSale\<lparr>items := [\<lparr>si_product = 1, si_productCode = ''A'', si_productName = ''Leche'',
                                 si_quantity = Number 0, si_unitPrice = Number 1200, si_discount = Number 0,
                                 si_subtotal = Number 0\<rparr>,
                                \<lparr>si_product = 2, si_productCode = ''B'', si_productName = ''Pan'',
                                 si_quantity = Number 1, si_unitPrice = Number 950, si_discount = Number 0,
                                 si_subtotal = Number 950\<rparr>],
                     totalAmount := Number 950\<rparr>"

definition exLooseDb :: db where
  "exLooseDb = exDb\<lparr>sales := [exLoose]\<rparr>"

text \<open>A ledger with one cancelled and one completed sale, of two sellers, and a query
  without parameters.\<close>

definition exCompleted :: "sale" where
  "exCompleted = \<lparr>s_id = 101, saleNumber = ''V2024-002'', customer = None,
                  items = [\<lparr>si_product = 3, si_productCode = ''C'', si_productName = ''Cafe'',
                            si_quantity = Number 1, si_unitPrice = Number 1000, si_discount = Number 10,
                            si_subtotal = Number 900\<rparr>],
                  totalAmount = Number 900, paymentMethod = ''tarjeta_credito'',
                  paymentStatus = ''completado'', seller = 8, s_notes = None, tax = Number 0,
                  createdAt = \<lparr>year = 2024, month = 3, dayOfMonth = 6, msOfDay = 0\<rparr>\<rparr>"

definition exStatsDb :: db where
  "exStatsDb = exDb\<lparr>sales := [exCancelled, exCompleted]\<rparr>"

definition exQuery :: query where
  "exQuery = \<lparr>q_startDate = NoDate, q_endDate = NoDate, q_paymentStatus = None,
              q_paymentMethod = None, q_customerId = None, q_sellerId = None\<rparr>"

definition exSeller8 :: user where
  "exSeller8 = \<lparr>u_id = 8, role = ''employee''\<rparr>"

text \<open>The reference request with the initial status cancelled.\<close>

definition exBornCancelled :: saleData where
  "exBornCancelled = exData\<lparr>sd_paymentStatus := Some ''cancelado''\<rparr>"

text \<open>The reference request with an initial status that the schema does not know.\<close>

definition exBornVoid :: saleData where
  "exBornVoid = exData\<lparr>sd_paymentStatus := Some ''anulado''\<rparr>"

section \<open>Rounding\<close>

text \<open>
  The exponent is the one of the power of two at or below the number. Rounding keeps a
  number that is not negative so, never goes past a double above its argument, and leaves
  a double as it is.
\<close>

lemma pow2_powr: "pow2 e = 2 powr (of_int e)"
proof (cases "0 \<le> e")
  case True
  then show ?thesis
    by (simp add: pow2_def powr_realpow [symmetric])
next
  case False
  then have "pow2 e = 1 / 2 ^ nat (- e)" by (simp add: pow2_def)
  also have "\<dots> = 1 / 2 powr (of_int (- e))"
    using False by (simp add: powr_realpow [symmetric])
  also have "\<dots> = 2 powr (of_int e)"
    by (simp add: powr_minus divide_inverse)
  finally show ?thesis .
qed

lemma pow2_pos [simp]: "0 < pow2 e"
  by (simp add: pow2_powr)

lemma pow2_add: "pow2 (a + b) = pow2 a * pow2 b"
  by (simp add: pow2_powr powr_add)

lemma pow2_mono: "a \<le> b \<Longrightarrow> pow2 a \<le> pow2 b"
  by (simp add: pow2_powr)

lemma pow2_less: "pow2 a < pow2 b \<longleftrightarrow> a < b"
  by (simp add: pow2_powr)

lemma pow2_nat: "0 \<le> e \<Longrightarrow> pow2 e = of_int (2 ^ nat e)"
  by (simp add: pow2_def)

lemma expo_bounds_ge1:
  assumes "1 \<le> x"
  shows "pow2 (expo x) \<le> x \<and> x < pow2 (expo x + 1)"
proof -
  define n where "n = nat \<lfloor>x\<rfloor>"
  from assms have n: "0 < n" by (simp add: n_def)
  from floorlog_bounds [OF n, of 2] have b: "2 ^ (floorlog 2 n - 1) \<le> n" "n < 2 ^ floorlog 2 n"
    by simp_all
  from n have k: "0 < floorlog 2 n" by (simp add: floorlog_def)
  have e: "expo x = int (floorlog 2 n) - 1"
    using assms by (simp add: expo_def n_def)
  have nx: "real n \<le> x" "x < real n + 1"
    using assms by (simp_all add: n_def)
  have lo: "pow2 (expo x) = 2 ^ (floorlog 2 n - 1)"
    using k by (simp add: e pow2_def nat_diff_distrib')
  have hi: "pow2 (expo x + 1) = 2 ^ floorlog 2 n"
    by (simp add: e pow2_def)
  from b(1) have lo': "(2::real) ^ (floorlog 2 n - 1) \<le> real n"
    by (metis of_nat_le_iff of_nat_numeral of_nat_power)
  from b(2) have hi': "real n + 1 \<le> 2 ^ floorlog 2 n"
    by (metis Suc_leI of_nat_Suc of_nat_le_iff of_nat_numeral of_nat_power add.commute)
  show ?thesis unfolding lo hi using lo' hi' nx by linarith
qed

lemma expo_bounds_lt1:
  assumes "0 < x" and "x < 1"
  shows "pow2 (expo x) \<le> x \<and> x < pow2 (expo x + 1)"
proof -
  define m where "m = nat (\<lceil>1 / x\<rceil> - 1)"
  from assms have big: "1 < 1 / x" by simp
  then have c: "2 \<le> \<lceil>1 / x\<rceil>" by linarith
  then have p: "0 < \<lceil>1 / x\<rceil> - 1" by linarith
  then have m: "0 < m" unfolding m_def by (simp only: zero_less_nat_eq)
  from p have mi: "int m = \<lceil>1 / x\<rceil> - 1" unfolding m_def by (simp only: int_nat_eq if_P less_imp_le)
  from floorlog_bounds [OF m, of 2] have b: "2 ^ (floorlog 2 m - 1) \<le> m" "m < 2 ^ floorlog 2 m"
    by simp_all
  from m have k: "0 < floorlog 2 m" by (simp add: floorlog_def)
  have e: "expo x = - int (floorlog 2 m)"
    using assms by (simp add: expo_def m_def abs_if)
  have mx: "real m < 1 / x" "1 / x \<le> real m + 1"
  proof -
    have "real_of_int (int m) < 1 / x" unfolding mi by linarith
    then show "real m < 1 / x" by simp
    have "1 / x \<le> real_of_int (int m) + 1" unfolding mi by linarith
    then show "1 / x \<le> real m + 1" by simp
  qed
  from b(1) have lo': "(2::real) ^ (floorlog 2 m - 1) \<le> real m"
    by (metis of_nat_le_iff of_nat_numeral of_nat_power)
  from b(2) have hi': "real m + 1 \<le> 2 ^ floorlog 2 m"
    by (metis Suc_leI of_nat_Suc of_nat_le_iff of_nat_numeral of_nat_power add.commute)
  have lo: "pow2 (expo x) = 1 / 2 ^ floorlog 2 m"
    using k by (simp add: e pow2_def)
  have hi: "pow2 (expo x + 1) = 1 / 2 ^ (floorlog 2 m - 1)"
  proof (cases "floorlog 2 m = 1")
    case True
    then show ?thesis by (simp add: e pow2_def)
  next
    case False
    with k have "1 < floorlog 2 m" by simp
    then have "nat (int (floorlog 2 m) - 1) = floorlog 2 m - 1" by simp
    with \<open>1 < floorlog 2 m\<close> show ?thesis by (simp add: e pow2_def)
  qed
  have "1 / x \<le> 2 ^ floorlog 2 m" using mx hi' by linarith
  with assms have one: "1 / 2 ^ floorlog 2 m \<le> x"
    by (simp add: field_simps)
  have "2 ^ (floorlog 2 m - 1) < 1 / x" using mx lo' by linarith
  with assms have two: "x < 1 / 2 ^ (floorlog 2 m - 1)"
    by (simp add: field_simps)
  from one two show ?thesis by (simp only: lo hi)
qed

lemma expo_abs: "expo (- x) = expo x" "expo \<bar>x\<bar> = expo x"
  by (simp_all add: expo_def)

lemma expo_bounds:
  assumes "0 < x"
  shows "pow2 (expo x) \<le> x" and "x < pow2 (expo x + 1)"
  using expo_bounds_ge1 [of x] expo_bounds_lt1 [of x] assms
  by (cases "1 \<le> x"; simp)+

lemma expo_unique:
  assumes "0 < x" and "pow2 e \<le> x" and "x < pow2 (e + 1)"
  shows "expo x = e"
proof -
  from expo_bounds [OF assms(1)] assms(2,3)
  have "pow2 (expo x) < pow2 (e + 1)" and "pow2 e < pow2 (expo x + 1)" by linarith+
  then show ?thesis by (simp add: pow2_less)
qed

lemma expo_mono:
  assumes "0 < x" and "x \<le> y"
  shows "expo x \<le> expo y"
proof -
  from assms have y: "0 < y" by simp
  from expo_bounds [OF assms(1)] expo_bounds [OF y] assms(2)
  have "pow2 (expo x) < pow2 (expo y + 1)" by linarith
  then show ?thesis by (simp add: pow2_less)
qed



lemma roundEven_cases: "roundEven x = \<lfloor>x\<rfloor> \<or> roundEven x = \<lfloor>x\<rfloor> + 1"
  by (simp add: roundEven_def Let_def)

lemma roundEven_int [simp]: "roundEven (of_int n) = n"
  by (simp add: roundEven_def Let_def)

lemma roundEven_ge:
  assumes "of_int a \<le> x"
  shows "a \<le> roundEven x"
proof -
  from assms have "a \<le> \<lfloor>x\<rfloor>" by (simp add: le_floor_iff)
  with roundEven_cases [of x] show ?thesis by auto
qed

lemma roundEven_le:
  assumes "x \<le> of_int b"
  shows "roundEven x \<le> b"
proof (cases "x = of_int b")
  case True
  then show ?thesis by simp
next
  case False
  with assms have "x < of_int b" by simp
  then have "\<lfloor>x\<rfloor> < b" by (simp add: floor_less_iff)
  with roundEven_cases [of x] show ?thesis by auto
qed

lemma ulp_pos: "0 < ulp x"
  by (simp add: ulp_def)

lemma ulp_nonzero [simp]: "ulp x \<noteq> 0"
  using ulp_pos [of x] by simp

lemma scaled_nonneg: "0 \<le> x \<Longrightarrow> 0 \<le> real_of_int (roundEven (x / ulp x)) * ulp x"
proof -
  assume "0 \<le> x"
  with ulp_pos [of x] have "of_int 0 \<le> x / ulp x" by simp
  from roundEven_ge [OF this] have "0 \<le> real_of_int (roundEven (x / ulp x))" by simp
  with ulp_pos [of x] show ?thesis by (simp add: mult_nonneg_nonneg less_imp_le)
qed

lemma fl_alt:
  "fl x = (if x = 0 then Number 0
           else if pow2 1024 \<le> \<bar>of_int (roundEven (x / ulp x)) * ulp x\<bar>
                then (if 0 < x then PosInf else NegInf)
                else Number (of_int (roundEven (x / ulp x)) * ulp x))"
  by (simp add: fl_def Let_def)

lemma ulp_ratio:
  assumes "0 < x" and "x \<le> y"
  shows "\<exists>k. ulp y = of_int (2 ^ k) * ulp x"
proof -
  from expo_mono [OF assms] have "max (expo x) (- 1022) - 52 \<le> max (expo y) (- 1022) - 52"
    by simp
  then obtain d where d: "0 \<le> d"
    and eq: "max (expo y) (- 1022) - 52 = d + (max (expo x) (- 1022) - 52)"
    by (metis add.commute diff_add_cancel diff_ge_0_iff_ge)
  have "ulp y = pow2 d * ulp x"
    unfolding ulp_def eq by (rule pow2_add)
  with d show ?thesis by (auto simp: pow2_nat)
qed

lemma fl_zero [simp]: "fl 0 = Number 0"
  by (simp add: fl_def)

lemma fl_nonneg:
  assumes "0 \<le> x"
  shows "fl x = PosInf \<or> (\<exists>r. fl x = Number r \<and> 0 \<le> r)"
proof (cases "x = 0")
  case True
  then show ?thesis by simp
next
  case False
  with assms have "0 < x" by simp
  with scaled_nonneg [OF assms] show ?thesis by (auto simp: fl_alt)
qed

lemma fl_upper:
  assumes "0 \<le> x" and "x \<le> b" and "fl b = Number b"
  shows "\<exists>r. fl x = Number r \<and> 0 \<le> r \<and> r \<le> b"
proof (cases "x = 0")
  case True
  with assms show ?thesis by simp
next
  case False
  with assms have x: "0 < x" by simp
  with assms have b: "0 < b" by simp
  define N where "N = roundEven (b / ulp b)"
  from b assms(3) have fin: "\<not> pow2 1024 \<le> \<bar>of_int N * ulp b\<bar>" and rb: "of_int N * ulp b = b"
    by (auto simp: fl_alt N_def split: if_splits)
  from ulp_ratio [OF x assms(2)] obtain k where k: "ulp b = of_int (2 ^ k) * ulp x" by blast
  have ux: "ulp x \<noteq> 0" by simp
  have "b = of_int (N * 2 ^ k) * ulp x"
    using rb k by (simp add: mult.assoc)
  then have "b / ulp x = of_int (N * 2 ^ k)"
    using ux by simp
  moreover have "x / ulp x \<le> b / ulp x"
    using assms(2) ulp_pos [of x] by (simp add: divide_right_mono less_imp_le)
  ultimately have "x / ulp x \<le> of_int (N * 2 ^ k)" by simp
  from roundEven_le [OF this] have "roundEven (x / ulp x) \<le> N * 2 ^ k" .
  then have "real_of_int (roundEven (x / ulp x)) \<le> real_of_int (N * 2 ^ k)" by (simp only: of_int_le_iff)
  then have "real_of_int (roundEven (x / ulp x)) * ulp x \<le> real_of_int (N * 2 ^ k) * ulp x"
    using ulp_pos [of x] by (simp only: mult_right_mono less_imp_le)
  also have "\<dots> = b" using rb k by (simp add: mult.assoc)
  finally have le: "real_of_int (roundEven (x / ulp x)) * ulp x \<le> b" .
  from scaled_nonneg [OF assms(1)] have "0 \<le> real_of_int (roundEven (x / ulp x)) * ulp x" .
  moreover from fin rb b have "b < pow2 1024" by simp
  ultimately show ?thesis using le x by (auto simp: fl_alt)
qed


lemma fl_exact:
  assumes "x / ulp x = of_int n" and "\<bar>x\<bar> < pow2 1024"
  shows "fl x = Number x"
proof -
  have "of_int (roundEven (x / ulp x)) * ulp x = x"
    unfolding assms(1) roundEven_int using assms(1) by (simp add: field_simps)
  with assms(2) show ?thesis by (simp add: fl_alt)
qed

lemma ulp_of_expo: "expo x = e \<Longrightarrow> - 1022 \<le> e \<Longrightarrow> ulp x = pow2 (e - 52)"
  by (simp add: ulp_def)

lemma ulp_small: "expo x \<le> - 1022 \<Longrightarrow> ulp x = pow2 (- 1074)"
  by (simp add: ulp_def max_def)

lemma pow2_numeral: "pow2 52 = 4503599627370496" "pow2 53 = 9007199254740992"
  by (simp_all add: pow2_def)

lemma pow2_scale:
  "pow2 e = pow2 52 * pow2 (e - 52)" "pow2 (e + 1) = pow2 53 * pow2 (e - 52)"
  using pow2_add [of 52 "e - 52"] pow2_add [of 53 "e - 52"]
  by (simp_all add: algebra_simps)

lemma fl_idem:
  assumes "0 \<le> x" and "fl x = Number r"
  shows "fl r = Number r"
proof (cases "x = 0")
  case True
  with assms show ?thesis by simp
next
  case False
  with assms have x: "0 < x" by simp
  define N where "N = roundEven (x / ulp x)"
  from x assms(2) have r: "r = of_int N * ulp x" and fin: "\<bar>r\<bar> < pow2 1024"
    by (auto simp: fl_alt N_def split: if_splits)
  from scaled_nonneg [OF assms(1)] have r0: "0 \<le> r" by (simp add: r N_def)
  show ?thesis
  proof (cases "r = 0")
    case True
    then show ?thesis by simp
  next
    case False
    with r0 have rpos: "0 < r" by simp
    note bx = expo_bounds [OF x]
    show ?thesis
    proof (cases "- 1022 \<le> expo x")
      case True
      note normal = True
      then have u: "ulp x = pow2 (expo x - 52)" by (simp add: ulp_of_expo)
      have scale: "pow2 (expo x) = pow2 52 * ulp x" "pow2 (expo x + 1) = pow2 53 * ulp x"
        unfolding u by (rule pow2_scale)+
      from bx(1) have "pow2 52 * ulp x \<le> x" by (simp only: scale)
      then have "pow2 52 \<le> x / ulp x" using ulp_pos [of x] by (simp add: field_simps)
      then have "of_int 4503599627370496 \<le> x / ulp x" by (simp add: pow2_numeral)
      from roundEven_ge [OF this] have lo: "4503599627370496 \<le> N" by (simp add: N_def)
      from bx(2) have "x < pow2 53 * ulp x" by (simp only: scale)
      then have "x / ulp x \<le> pow2 53" using ulp_pos [of x] by (simp add: field_simps)
      then have "x / ulp x \<le> of_int 9007199254740992" by (simp add: pow2_numeral)
      from roundEven_le [OF this] have hi: "N \<le> 9007199254740992" by (simp add: N_def)
      show ?thesis
      proof (cases "N = 9007199254740992")
        case True
        then have rv: "r = pow2 (expo x + 1)" by (simp add: r scale pow2_numeral)
        have "expo r = expo x + 1"
          by (rule expo_unique [OF rpos]) (simp_all add: rv pow2_less)
        with normal have ur: "ulp r = pow2 (expo x + 1 - 52)" by (simp add: ulp_of_expo)
        have "r = pow2 52 * ulp r"
          unfolding ur unfolding rv by (rule pow2_scale(1))
        then have "r / ulp r = pow2 52 * ulp r / ulp r" by simp
        then have "r / ulp r = of_int 4503599627370496"
          by (simp add: pow2_numeral)
        from fl_exact [OF this fin] show ?thesis .
      next
        case False
        with hi have "N < 9007199254740992" by simp
        then have "real_of_int N < pow2 53" by (simp add: pow2_numeral)
        then have "r < pow2 (expo x + 1)"
          using ulp_pos [of x] by (simp add: r scale)
        moreover from lo have "pow2 52 \<le> real_of_int N" by (simp add: pow2_numeral)
        then have "pow2 (expo x) \<le> r"
          using ulp_pos [of x] by (simp add: r scale)
        ultimately have "expo r = expo x" using expo_unique [OF rpos] by blast
        with normal have "ulp r = ulp x" by (simp add: ulp_def)
        then have "r / ulp r = of_int N" by (simp add: r)
        from fl_exact [OF this fin] show ?thesis .
      qed
    next
      case False
      then have small: "expo x < - 1022" by simp
      then have u: "ulp x = pow2 (- 1074)" by (simp add: ulp_small)
      from small have "expo x + 1 \<le> - 1022" by simp
      then have "pow2 (expo x + 1) \<le> pow2 (- 1022)" by (rule pow2_mono)
      with bx(2) have xs: "x < pow2 (- 1022)" by simp
      have sc: "pow2 (- 1022) = pow2 52 * pow2 (- 1074)"
        using pow2_scale(1) [of "- 1022"] by simp
      from xs have "x / ulp x \<le> pow2 52"
        using ulp_pos [of x] unfolding sc u by (simp add: field_simps)
      then have "x / ulp x \<le> of_int 4503599627370496" by (simp add: pow2_numeral)
      from roundEven_le [OF this] have "N \<le> 4503599627370496" by (simp add: N_def)
      then have "real_of_int N \<le> pow2 52" by (simp add: pow2_numeral)
      then have rle: "r \<le> pow2 (- 1022)"
        unfolding sc r u by (simp add: mult_right_mono)
      have "expo r \<le> - 1022"
      proof (rule ccontr)
        assume "\<not> expo r \<le> - 1022"
        then have "- 1022 + 1 \<le> expo r" by simp
        then have "pow2 (- 1022 + 1) \<le> pow2 (expo r)" by (rule pow2_mono)
        with expo_bounds(1) [OF rpos] have "pow2 (- 1022 + 1) \<le> r" by simp
        with rle have "pow2 (- 1022 + 1) \<le> pow2 (- 1022)" by simp
        then show False by (simp add: pow2_powr)
      qed
      then have "ulp r = ulp x" by (simp add: ulp_small u)
      then have "r / ulp r = of_int N" by (simp add: r)
      from fl_exact [OF this fin] show ?thesis .
    qed
  qed
qed

lemma fl_nonpos:
  assumes "x \<le> 0" and "fl x = Number r"
  shows "r \<le> 0"
proof (cases "x = 0")
  case True
  with assms show ?thesis by simp
next
  case False
  with assms have "x < 0" by simp
  with ulp_pos [of x] have "x / ulp x \<le> of_int 0" by (simp add: divide_nonpos_pos less_imp_le)
  from roundEven_le [OF this] have "real_of_int (roundEven (x / ulp x)) \<le> 0" by simp
  with ulp_pos [of x] have "real_of_int (roundEven (x / ulp x)) * ulp x \<le> 0"
    by (simp add: mult_nonpos_nonneg less_imp_le)
  with assms(2) False show ?thesis by (auto simp: fl_alt split: if_splits)
qed

lemma fl_double:
  assumes "fl x = Number r" and "0 \<le> r"
  shows "fl r = Number r"
proof (cases "0 \<le> x")
  case True
  from fl_idem [OF this assms(1)] show ?thesis .
next
  case False
  then have "x \<le> 0" by simp
  from fl_nonpos [OF this assms(1)] assms(2) have "r = 0" by simp
  then show ?thesis by simp
qed

lemma fl_not_NaN [simp]: "fl x \<noteq> NaN"
  by (simp add: fl_alt)

section \<open>Numbers that are not negative\<close>

lemma js_le_Number [simp]: "js_le (Number a) (Number b) = (a \<le> b)"
  by (auto simp: js_le_def)

lemma js_le_NaN [simp]: "\<not> js_le NaN v" "\<not> js_le v NaN"
  by (simp_all add: js_le_def)

lemma nonneg_iff: "js_le (Number 0) v \<longleftrightarrow> v = PosInf \<or> (\<exists>r. v = Number r \<and> 0 \<le> r)"
  by (cases v) (auto simp: js_le_def)

lemma fl_nonneg_js: "0 \<le> x \<Longrightarrow> js_le (Number 0) (fl x)"
  using fl_nonneg [of x] by (auto simp: nonneg_iff)

lemma isDouble_fl_nonneg: "js_le (Number 0) (fl x) \<Longrightarrow> isDouble (fl x)"
  by (cases "fl x") (auto simp: isDouble_def dest: fl_double)

lemma js_sub_nonneg:
  assumes "js_le (Number 0) s" and "\<not> js_lt s (Number q)"
  shows "js_le (Number 0) (js_sub s (Number q))"
proof -
  from assms(1) consider "s = PosInf" | r where "s = Number r" "0 \<le> r"
    by (auto simp: nonneg_iff)
  then show ?thesis
  proof cases
    case 1
    then show ?thesis by (simp add: nonneg_iff)
  next
    case 2
    with assms(2) have "0 \<le> r - q" by simp
    from fl_nonneg_js [OF this] 2 show ?thesis by simp
  qed
qed

lemma js_sub_bounded:
  assumes "js_le (Number 0) s" and "js_le s (Number b)" and "fl b = Number b"
    and "0 \<le> q" and "\<not> js_lt s (Number q)"
  shows "js_le (js_sub s (Number q)) (Number b)"
proof -
  from assms(1,2) obtain r where s: "s = Number r" and r: "0 \<le> r" "r \<le> b"
    by (cases s) (auto simp: js_le_def)
  from assms(5) s have "0 \<le> r - q" by simp
  moreover from assms(4) r have "r - q \<le> b" by simp
  ultimately obtain r' where "fl (r - q) = Number r'" and "r' \<le> b"
    using fl_upper [OF _ _ assms(3)] by blast
  with s show ?thesis by simp
qed

lemma js_add_nonneg:
  assumes "js_le (Number 0) s" and "js_le (Number 0) q"
  shows "js_le (Number 0) (js_add s q)"
proof -
  from assms(1) consider "s = PosInf" | r where "s = Number r" "0 \<le> r"
    by (auto simp: nonneg_iff)
  then show ?thesis
  proof cases
    case 1
    with assms(2) show ?thesis by (auto simp: nonneg_iff)
  next
    case 2
    from assms(2) consider "q = PosInf" | r' where "q = Number r'" "0 \<le> r'"
      by (auto simp: nonneg_iff)
    then show ?thesis
    proof cases
      case 1
      with 2 show ?thesis by (simp add: nonneg_iff)
    next
      case (2 r')
      with \<open>0 \<le> r\<close> have "0 \<le> r + r'" by simp
      from fl_nonneg_js [OF this] 2 \<open>s = Number r\<close> show ?thesis by simp
    qed
  qed
qed

lemma js_lt_trans:
  assumes "js_le s (Number b)" and "js_lt (Number b) q"
  shows "js_lt s q"
  using assms by (cases s; cases q) (auto simp: js_le_def)

section \<open>Whole numbers\<close>

text \<open>A whole number of magnitude at most \<open>2\<close> to the power 53 is a double, so sums and
  differences of whole numbers within that range are exact.\<close>

lemma pow2_le: "pow2 a \<le> pow2 b \<longleftrightarrow> a \<le> b"
  using pow2_less [of b a] by auto

lemma fl_int:
  assumes "\<bar>n\<bar> \<le> 2 ^ 53"
  shows "fl (of_int n) = Number (of_int n)"
proof (cases "n = 0")
  case True
  then show ?thesis by simp
next
  case False
  define x :: real where "x = of_int n"
  define e where "e = expo x"
  have abs: "\<bar>x\<bar> = of_int \<bar>n\<bar>" by (simp add: x_def)
  from False have "1 \<le> \<bar>n\<bar>" by simp
  then have one: "1 \<le> \<bar>x\<bar>" unfolding abs by linarith
  then have pos: "0 < \<bar>x\<bar>" by simp
  from expo_bounds [OF pos] have lo: "pow2 e \<le> \<bar>x\<bar>" and hi: "\<bar>x\<bar> < pow2 (e + 1)"
    by (simp_all add: e_def expo_abs)
  from one hi have "pow2 0 < pow2 (e + 1)" by (simp add: pow2_def)
  then have e0: "0 \<le> e" by (simp add: pow2_less)
  from assms have "of_int \<bar>n\<bar> \<le> (of_int (2 ^ 53) :: real)" by (rule of_int_le_iff [THEN iffD2])
  then have top: "\<bar>x\<bar> \<le> pow2 53" unfolding abs by (simp add: pow2_def)
  with lo have "pow2 e \<le> pow2 53" by linarith
  then have e53: "e \<le> 53" by (simp add: pow2_le)
  from e0 have ulp: "ulp x = pow2 (e - 52)" by (simp add: ulp_of_expo e_def)
  have "\<exists>m. x / ulp x = of_int m"
  proof (cases "e \<le> 52")
    case True
    have "pow2 (e - 52) * pow2 (52 - e) = 1"
      using pow2_add [of "e - 52" "52 - e"] by (simp add: pow2_def)
    from inverse_unique [OF this] have "x / ulp x = x * pow2 (52 - e)"
      unfolding ulp by (simp add: divide_inverse)
    also from True have "\<dots> = of_int (n * 2 ^ nat (52 - e))"
      by (simp add: pow2_nat x_def)
    finally show ?thesis by blast
  next
    case False
    with e53 have e: "e = 53" by simp
    with lo top have "\<bar>x\<bar> = pow2 53" by simp
    then have "\<bar>x\<bar> = 9007199254740992" by (simp add: pow2_numeral)
    then have "x = 9007199254740992 \<or> x = - 9007199254740992" by linarith
    moreover have "ulp x = 2" unfolding ulp e by (simp add: pow2_def)
    ultimately have "x / ulp x = of_int 4503599627370496 \<or> x / ulp x = of_int (- 4503599627370496)"
      by auto
    then show ?thesis by blast
  qed
  then obtain m where "x / ulp x = of_int m" ..
  moreover have "pow2 53 < pow2 1024" by (simp add: pow2_less)
  with top have "\<bar>x\<bar> < pow2 1024" by linarith
  ultimately have "fl x = Number x" by (rule fl_exact)
  then show ?thesis by (simp add: x_def)
qed

lemma js_sub_int:
  "\<bar>a - b\<bar> \<le> 2 ^ 53 \<Longrightarrow> js_sub (Number (of_int a)) (Number (of_int b)) = Number (of_int (a - b))"
  using fl_int [of "a - b"] by simp

lemma js_add_int:
  "\<bar>a + b\<bar> \<le> 2 ^ 53 \<Longrightarrow> js_add (Number (of_int a)) (Number (of_int b)) = Number (of_int (a + b))"
  using fl_int [of "a + b"] by simp

lemma realOf_Number [simp]: "realOf (Number r) = r"
  by (simp add: realOf_def)

lemma int_bound: "\<bar>real_of_int n\<bar> \<le> 2 ^ 53 \<longleftrightarrow> \<bar>n\<bar> \<le> 2 ^ 53"
proof -
  have "(of_int \<bar>n\<bar> \<le> (of_int (2 ^ 53) :: real)) = (\<bar>n\<bar> \<le> 2 ^ 53)" by (rule of_int_le_iff)
  then show ?thesis by simp
qed

lemma wholeNumber_int:
  assumes "wholeNumber v"
  obtains n where "v = Number (of_int n)" and "\<bar>n\<bar> \<le> 2 ^ 53"
proof -
  from assms obtain r where v: "v = Number r" and r: "of_int \<lfloor>r\<rfloor> = r" and le: "\<bar>r\<bar> \<le> 2 ^ 53"
    by (cases v) (auto simp: wholeNumber_def)
  have "\<bar>real_of_int \<lfloor>r\<rfloor>\<bar> \<le> 2 ^ 53" unfolding r by (rule le)
  then have "\<bar>\<lfloor>r\<rfloor>\<bar> \<le> 2 ^ 53" by (simp only: int_bound)
  moreover from v r have "v = Number (of_int \<lfloor>r\<rfloor>)" by (simp only:)
  ultimately show ?thesis by (intro that [of "\<lfloor>r\<rfloor>"])
qed

lemma wholeNumber_of_int: "\<bar>n\<bar> \<le> 2 ^ 53 \<Longrightarrow> wholeNumber (Number (of_int n))"
  using int_bound [of n] by (simp add: wholeNumber_def)

lemma js_sub_whole:
  assumes a: "wholeNumber a" and q: "wholeNumber q"
    and enough: "\<not> js_lt a q" and q0: "js_le (Number 0) q"
  shows "js_sub a q = Number (realOf a - realOf q)" and "wholeNumber (js_sub a q)"
proof -
  from a obtain m where m: "a = Number (of_int m)" "\<bar>m\<bar> \<le> 2 ^ 53" by (rule wholeNumber_int)
  from q obtain n where n: "q = Number (of_int n)" "\<bar>n\<bar> \<le> 2 ^ 53" by (rule wholeNumber_int)
  from enough q0 m n have "n \<le> m" and "0 \<le> n" by simp_all
  with m(2) have le: "\<bar>m - n\<bar> \<le> 2 ^ 53" by linarith
  from js_sub_int [OF this] m(1) n(1)
  have eq: "js_sub a q = Number (of_int (m - n))" by simp
  with m(1) n(1) show "js_sub a q = Number (realOf a - realOf q)" by simp
  from eq wholeNumber_of_int [OF le] show "wholeNumber (js_sub a q)" by simp
qed

lemma foldl_js_add_whole:
  assumes "\<forall>v\<in>set vs. wholeNumber v \<and> js_le (Number 0) v"
    and "0 \<le> m" and "of_int m + sum_list (map realOf vs) \<le> 2 ^ 53"
  shows "foldl js_add (Number (of_int m)) vs = Number (of_int m + sum_list (map realOf vs))"
  using assms
proof (induction vs arbitrary: m)
  case Nil
  then show ?case by simp
next
  case (Cons v vs)
  from Cons.prems(1) have "wholeNumber v" and v0: "js_le (Number 0) v" by simp_all
  then obtain n where n: "v = Number (of_int n)" by (auto elim: wholeNumber_int)
  with v0 have n0: "0 \<le> n" by simp
  have each: "0 \<le> realOf x" if "x \<in> set vs" for x
  proof -
    from Cons.prems(1) that have "js_le (Number 0) x" by simp
    then show ?thesis by (auto simp: nonneg_iff realOf_def)
  qed
  have "0 \<le> sum_list (map realOf vs)"
    by (rule sum_list_nonneg) (use each in auto)
  moreover from Cons.prems(3) n
  have all: "real_of_int m + real_of_int n + sum_list (map realOf vs) \<le> 2 ^ 53"
    by simp
  ultimately have "real_of_int (m + n) \<le> 2 ^ 53" by simp
  moreover from Cons.prems(2) n0 have mn: "0 \<le> m + n" by simp
  ultimately have "\<bar>real_of_int (m + n)\<bar> \<le> 2 ^ 53" by linarith
  then have "\<bar>m + n\<bar> \<le> 2 ^ 53" by (simp only: int_bound)
  from js_add_int [OF this] n have step: "js_add (Number (of_int m)) v = Number (of_int (m + n))"
    by simp
  from Cons.prems(1) have rest: "\<forall>v\<in>set vs. wholeNumber v \<and> js_le (Number 0) v" by simp
  from all have "of_int (m + n) + sum_list (map realOf vs) \<le> (2 ^ 53 :: real)"
    by simp
  with mn have "foldl js_add (Number (of_int (m + n))) vs
                     = Number (of_int (m + n) + sum_list (map realOf vs))"
    by (rule Cons.IH [OF rest])
  with step n show ?case by simp
qed

section \<open>The loop of the creation\<close>

lemma validProduct_stock:
  "validProduct (pr\<lparr>p_stock := v\<rparr>) \<Longrightarrow> js_le (Number 0) v"
  "validProduct pr \<Longrightarrow> js_le (Number 0) v \<Longrightarrow> validProduct (pr\<lparr>p_stock := v\<rparr>)"
  by (simp_all add: validProduct_def)

lemma saveStock_Inr:
  "saveStock ses pid pr v = Inr ses' \<longleftrightarrow>
     validProduct (pr\<lparr>p_stock := v\<rparr>) \<and>
     ses' = ses\<lparr>working := (working ses)\<lparr>products := (products (working ses))(pid \<mapsto> pr\<lparr>p_stock := v\<rparr>)\<rparr>\<rparr>"
  by (auto simp: saveStock_def saveProductStock_def)

lemma saveStock_Inl: "saveStock ses pid pr v = Inl err \<Longrightarrow> err = ServerError"
  by (auto simp: saveStock_def saveProductStock_def split: if_splits)

lemma processItems_append:
  "processItems ses (xs @ ys) t ls =
     (case processItems ses xs t ls of
        Inl err \<Rightarrow> Inl err
      | Inr (ses', t', ls') \<Rightarrow> processItems ses' ys t' ls')"
proof (induction xs arbitrary: ses t ls)
  case Nil
  show ?case by simp
next
  case (Cons x xs)
  show ?case
    by (simp add: Cons.IH Let_def split: option.splits sum.splits)
qed

lemma processItems_fail_here:
  assumes "products (working ses) (i_product it) = None
           \<or> (\<exists>pr. products (working ses) (i_product it) = Some pr
                   \<and> js_lt (p_stock pr) (i_quantity it))"
  shows "processItems ses (it # rest) t ls =
           Inl (case products (working ses) (i_product it) of
                  None \<Rightarrow> ProductNotFound (i_product it)
                | Some pr \<Rightarrow> InsufficientStock (p_name pr) (p_stock pr) (i_quantity it))"
  using assms by (auto split: option.splits)

lemma processItems_step:
  assumes "processItems ses (it # rest) t ls = Inr (ses', t', ls')"
  obtains pr ses1 where "products (working ses) (i_product it) = Some pr"
    and "\<not> js_lt (p_stock pr) (i_quantity it)"
    and "saveStock ses (i_product it) pr (js_sub (p_stock pr) (i_quantity it)) = Inr ses1"
    and "processItems ses1 rest (js_add t (si_subtotal (draftLine it pr))) (ls @ [draftLine it pr])
           = Inr (ses', t', ls')"
  using assms
  by (auto simp: Let_def draftLine_def split: option.splits if_splits sum.splits)

lemma processItems_committed:
  "processItems ses its t ls = Inr (ses', t', ls') \<Longrightarrow>
     committed ses' = committed ses \<and> sales (working ses') = sales (working ses)"
proof (induction its arbitrary: ses t ls)
  case Nil
  then show ?case by simp
next
  case (Cons it rest)
  from Cons.prems obtain pr ses1 t1 ls1 where
    save: "saveStock ses (i_product it) pr (js_sub (p_stock pr) (i_quantity it)) = Inr ses1"
    and rest: "processItems ses1 rest t1 ls1 = Inr (ses', t', ls')"
    by (rule processItems_step)
  from save have "committed ses1 = committed ses \<and> sales (working ses1) = sales (working ses)"
    by (auto simp: saveStock_Inr)
  with Cons.IH [OF rest] show ?case by simp
qed

lemma draftLine_stock [simp]: "draftLine it (pr\<lparr>p_stock := v\<rparr>) = draftLine it pr"
  by (simp add: draftLine_def effectiveDiscount_def)

lemma processItems_lines:
  "processItems ses its t ls = Inr (ses', t', ls') \<Longrightarrow>
     \<exists>new. ls' = ls @ new
       \<and> list_all2 (\<lambda>it l. \<exists>pr. products (working ses) (i_product it) = Some pr
                              \<and> l = draftLine it pr) its new
       \<and> t' = foldl js_add t (map si_subtotal new)"
proof (induction its arbitrary: ses t ls)
  case Nil
  then show ?case by simp
next
  case (Cons it rest)
  from Cons.prems obtain pr ses1 where
    pr: "products (working ses) (i_product it) = Some pr"
    and save: "saveStock ses (i_product it) pr (js_sub (p_stock pr) (i_quantity it)) = Inr ses1"
    and rest: "processItems ses1 rest (js_add t (si_subtotal (draftLine it pr))) (ls @ [draftLine it pr])
                 = Inr (ses', t', ls')"
    by (rule processItems_step)
  from save have
    ses1: "products (working ses1)
             = (products (working ses))(i_product it \<mapsto> pr\<lparr>p_stock := js_sub (p_stock pr) (i_quantity it)\<rparr>)"
    by (auto simp: saveStock_Inr)
  from Cons.IH [OF rest] obtain new where
    new: "ls' = (ls @ [draftLine it pr]) @ new"
    and all: "list_all2 (\<lambda>it l. \<exists>pr. products (working ses1) (i_product it) = Some pr
                              \<and> l = draftLine it pr) rest new"
    and tot: "t' = foldl js_add (js_add t (si_subtotal (draftLine it pr))) (map si_subtotal new)"
    by blast
  have older: "\<exists>pr. products (working ses) (i_product it') = Some pr \<and> l = draftLine it' pr"
    if "\<exists>pr. products (working ses1) (i_product it') = Some pr \<and> l = draftLine it' pr" for it' l
    using that pr by (cases "i_product it' = i_product it") (auto simp: ses1)
  have "list_all2 (\<lambda>it l. \<exists>pr. products (working ses) (i_product it) = Some pr
                              \<and> l = draftLine it pr) rest new"
    by (rule list_all2_mono [OF all]) (rule older)
  with pr have "list_all2 (\<lambda>it l. \<exists>pr. products (working ses) (i_product it) = Some pr
                              \<and> l = draftLine it pr)
                    (it # rest) (draftLine it pr # new)"
    by auto
  with new tot show ?case
    by (intro exI [of _ "draftLine it pr # new"]) simp
qed

lemma processItems_products:
  "processItems ses its t ls = Inr (ses', t', ls') \<Longrightarrow>
     products (working ses') pid =
       map_option (\<lambda>pr. pr\<lparr>p_stock := taken (p_stock pr) its pid\<rparr>) (products (working ses) pid)"
proof (induction its arbitrary: ses t ls)
  case Nil
  then show ?case by (simp add: taken_def option.map_ident)
next
  case (Cons it rest)
  from Cons.prems obtain pr ses1 t1 ls1 where
    pr: "products (working ses) (i_product it) = Some pr"
    and save: "saveStock ses (i_product it) pr (js_sub (p_stock pr) (i_quantity it)) = Inr ses1"
    and rest: "processItems ses1 rest t1 ls1 = Inr (ses', t', ls')"
    by (rule processItems_step)
  from save have
    ses1: "products (working ses1)
             = (products (working ses))(i_product it \<mapsto> pr\<lparr>p_stock := js_sub (p_stock pr) (i_quantity it)\<rparr>)"
    by (auto simp: saveStock_Inr)
  show ?case
  proof (cases "pid = i_product it")
    case True
    then show ?thesis
      using Cons.IH [OF rest] pr by (simp add: ses1 taken_def)
  next
    case False
    then show ?thesis
      using Cons.IH [OF rest] by (simp add: ses1 taken_def)
  qed
qed

lemma taken_distinct:
  "distinct (map i_product its) \<Longrightarrow> it \<in> set its \<Longrightarrow>
     taken stock its (i_product it) = js_sub stock (i_quantity it)"
proof (induction its)
  case Nil
  then show ?case by simp
next
  case (Cons a its)
  from Cons.prems(1) have fresh: "i_product a \<notin> i_product ` set its" and d: "distinct (map i_product its)"
    by simp_all
  have other: "i_product x \<noteq> i_product a" if "x \<in> set its" for x
  proof
    assume "i_product x = i_product a"
    with that have "i_product a \<in> i_product ` set its" by (metis imageI)
    with fresh show False ..
  qed
  show ?case
  proof (cases "it = a")
    case True
    have "filter (\<lambda>x. i_product x = i_product a) its = []"
      using other by (simp add: filter_empty_conv)
    with True show ?thesis by (simp add: taken_def)
  next
    case False
    with Cons.prems(2) have mem: "it \<in> set its" by simp
    from other [OF mem] Cons.IH [OF d mem] show ?thesis
      by (simp add: taken_def)
  qed
qed

section \<open>Saving the new sale\<close>

lemma saveNewSale_Inr:
  assumes "saveNewSale ses d = Inr (s, ses')"
  shows "s = d"
    and "s_id s \<notin> set (map s_id (sales (working ses)))"
    and "saleNumber s \<notin> set (map saleNumber (sales (working ses)))"
    and "committed ses' = committed ses"
    and "products (working ses') = products (working ses)"
    and "sales (working ses') = sales (working ses) @ [s]"
    and "validSale s"
  using assms by (auto simp: saveNewSale_def split: if_splits)

section \<open>What a created sale holds\<close>

lemma createSale_error_unchanged:
  "createSale e usr saleData st = (Inl err, st') \<Longrightarrow> st' = st"
  by (auto simp: createSale_def Let_def startTransaction_def endSession_def abortTransaction_def
      split: option.splits if_splits sum.splits prod.splits dest!: processItems_committed)

lemma createSale_Inr:
  assumes "createSale e usr saleData st = (Inr s, st')"
  obtains its u ses' totalAmt ls ses'' where
    "sd_items saleData = Some its" and "its \<noteq> []" and "truthy (sd_paymentMethod saleData)"
    and "usr = Some u"
    and "processItems (startTransaction st) its (Number 0) [] = Inr (ses', totalAmt, ls)"
    and "saveNewSale ses'
           (newSale e u saleData (formatSaleNumber (getFullYear (now e)) (countDocuments st + 1))
              ls totalAmt) = Inr (s, ses'')"
    and "st' = working ses''"
  using assms
  by (auto simp: createSale_def Let_def startTransaction_def endSession_def abortTransaction_def
      commitTransaction_def
      split: option.splits if_splits sum.splits prod.splits)

lemma createSale_Inr_items:
  assumes ok: "createSale e usr saleData st = (Inr s, st')"
    and its: "sd_items saleData = Some its"
  shows "list_all2 (\<lambda>it l. \<exists>pr. products st (i_product it) = Some pr \<and> l = draftLine it pr)
          its (items s)"
    and "totalAmount s = foldl js_add (Number 0) (map si_subtotal (items s))"
proof -
  from ok obtain its' u ses' totalAmt ls ses'' where
    its': "sd_items saleData = Some its'"
    and loop': "processItems (startTransaction st) its' (Number 0) [] = Inr (ses', totalAmt, ls)"
    and save: "saveNewSale ses'
           (newSale e u saleData (formatSaleNumber (getFullYear (now e)) (countDocuments st + 1))
              ls totalAmt) = Inr (s, ses'')"
    by (rule createSale_Inr)
  from its its' have "its' = its" by simp
  with loop' have loop: "processItems (startTransaction st) its (Number 0) [] = Inr (ses', totalAmt, ls)"
    by simp
  from processItems_lines [OF loop] have
    lines: "list_all2 (\<lambda>it l. \<exists>pr. products st (i_product it) = Some pr \<and> l = draftLine it pr) its ls"
    and tot: "totalAmt = foldl js_add (Number 0) (map si_subtotal ls)"
    by (auto simp: startTransaction_def)
  from saveNewSale_Inr(1) [OF save] have "items s = ls" and "totalAmount s = totalAmt"
    by (simp_all add: newSale_def)
  with lines tot
  show "list_all2 (\<lambda>it l. \<exists>pr. products st (i_product it) = Some pr \<and> l = draftLine it pr)
          its (items s)"
    and "totalAmount s = foldl js_add (Number 0) (map si_subtotal (items s))"
    by simp_all
qed

lemma createSale_Inr_db:
  assumes ok: "createSale e usr saleData st = (Inr s, st')"
    and its: "sd_items saleData = Some its"
  shows "products st' pid =
           map_option (\<lambda>pr. pr\<lparr>p_stock := taken (p_stock pr) its pid\<rparr>) (products st pid)"
    and "sales st' = sales st @ [s]"
    and "s_id s \<notin> set (map s_id (sales st))"
    and "saleNumber s \<notin> set (map saleNumber (sales st))"
proof -
  from ok obtain its' u ses' totalAmt ls ses'' where
    its': "sd_items saleData = Some its'"
    and loop': "processItems (startTransaction st) its' (Number 0) [] = Inr (ses', totalAmt, ls)"
    and save: "saveNewSale ses'
           (newSale e u saleData (formatSaleNumber (getFullYear (now e)) (countDocuments st + 1))
              ls totalAmt) = Inr (s, ses'')"
    and st': "st' = working ses''"
    by (rule createSale_Inr)
  from its its' have "its' = its" by simp
  with loop' have loop: "processItems (startTransaction st) its (Number 0) [] = Inr (ses', totalAmt, ls)"
    by simp
  note l = processItems_products [OF loop, of pid] processItems_committed [OF loop]
  note c = saveNewSale_Inr [OF save]
  show "products st' pid =
           map_option (\<lambda>pr. pr\<lparr>p_stock := taken (p_stock pr) its pid\<rparr>) (products st pid)"
    using l(1) c(5) st' by (simp add: startTransaction_def)
  show "sales st' = sales st @ [s]"
    using l(2) c(6) st' by (simp add: startTransaction_def)
  show "s_id s \<notin> set (map s_id (sales st))"
    using l(2) c(2) by (simp add: startTransaction_def)
  show "saleNumber s \<notin> set (map saleNumber (sales st))"
    using l(2) c(3) by (simp add: startTransaction_def)
qed

lemma createSale_Inr_fields:
  assumes ok: "createSale e usr saleData st = (Inr s, st')"
  shows "s_id s = newId e"
    and "saleNumber s = formatSaleNumber (year (now e)) (length (sales st) + 1)"
    and "paymentStatus s = (case sd_paymentStatus saleData of
                              None \<Rightarrow> ''pendiente''
                            | Some v \<Rightarrow> if v = [] then ''pendiente'' else v)"
    and "sd_paymentMethod saleData = Some (paymentMethod s)"
    and "usr = Some (u :: user) \<Longrightarrow> seller s = u_id u"
    and "createdAt s = now e"
    and "paymentStatus s \<in> set paymentStatuses"
    and "paymentMethod s \<in> set paymentMethods"
    and "validSale s"
proof -
  from ok obtain u' ses' totalAmt ls ses'' where
    pm: "truthy (sd_paymentMethod saleData)" and u': "usr = Some u'"
    and save: "saveNewSale ses'
           (newSale e u' saleData (formatSaleNumber (getFullYear (now e)) (countDocuments st + 1))
              ls totalAmt) = Inr (s, ses'')"
    by (rule createSale_Inr)
  note c = saveNewSale_Inr(1) [OF save]
  note v = saveNewSale_Inr(7) [OF save]
  show "s_id s = newId e" using c by (simp add: newSale_def)
  show "saleNumber s = formatSaleNumber (year (now e)) (length (sales st) + 1)"
    using c by (simp add: newSale_def getFullYear_def countDocuments_def)
  show "paymentStatus s = (case sd_paymentStatus saleData of
                              None \<Rightarrow> ''pendiente''
                            | Some v \<Rightarrow> if v = [] then ''pendiente'' else v)"
    using c by (simp add: newSale_def truthy_def split: option.splits)
  show "sd_paymentMethod saleData = Some (paymentMethod s)"
    using c pm by (simp add: newSale_def truthy_def split: option.splits)
  show "usr = Some u \<Longrightarrow> seller s = u_id u" using c u' by (simp add: newSale_def)
  show "createdAt s = now e" using c by (simp add: newSale_def)
  show "paymentStatus s \<in> set paymentStatuses" using v by (simp add: validSale_def)
  show "paymentMethod s \<in> set paymentMethods" using v by (simp add: validSale_def)
  show "validSale s" by (rule v)
qed

section \<open>Evaluating the reference inputs\<close>

lemmas example_defs =
  exA_def exB_def exC_def exDb_def exEnv_def exUser_def exItems_def exData_def exSale_def
  exDbSold_def exShortItems_def exShort_def exZeroItem_def exZero_def exOverride_def
  exZeroSale_def exOverrideSale_def exNaNItems_def exNaN_def exOldSale_def exOldDb_def
  exCancelled_def exCompleted_def exStatsDb_def exQuery_def exSeller8_def
  exBornCancelled_def exBornVoid_def exLoose_def exLooseDb_def exSeven_def exSevenSale_def
  exTwice_def

lemmas fl_eval = fl_def ulp_def pow2_def expo_def roundEven_def compute_floorlog js_le_def

lemmas createSale_defs =
  createSale_def Let_def startTransaction_def endSession_def abortTransaction_def
  commitTransaction_def truthy_def saveStock_def saveProductStock_def effectiveDiscount_def
  js_or_def orZero_def truthyNum_def newSale_def saveNewSale_def
  validProduct_def validSale_def validItem_def fl_eval
  paymentMethods_def paymentStatuses_def productCategories_def countDocuments_def getFullYear_def

lemma formatSaleNumber_first [simp]: "formatSaleNumber 2024 (Suc 0) = ''V2024-001''"
  by code_simp

lemmas valid_defs =
  schemaValid_def validProduct_def validSale_def validItem_def
  paymentMethods_def paymentStatuses_def productCategories_def

lemma exDb_valid: "schemaValid exDb"
  by (simp add: valid_defs example_defs)

lemma exDbSold_valid: "schemaValid exDbSold"
  by (simp add: valid_defs example_defs)

lemma exDb_doubles: "stockDoubles exDb"
  by (simp add: stockDoubles_def isDouble_def example_defs fl_eval Let_def)

lemma createSale_exData: "createSale exEnv (Some exUser) exData exDb = (Inr exSale, exDbSold)"
  by (simp add: example_defs createSale_defs fun_eq_iff)

lemma createSale_exSeven: "fst (createSale exEnv (Some exUser) exSeven exDb) = Inr exSevenSale"
  by (simp add: example_defs createSale_defs)

lemma createSale_exZero: "fst (createSale exEnv (Some exUser) exZero exDb) = Inr exZeroSale"
  by (simp add: example_defs createSale_defs)

lemma createSale_exOverride:
  "fst (createSale exEnv (Some exUser) exOverride exDb) = Inr exOverrideSale"
  by (simp add: example_defs createSale_defs)

section \<open>An item that fails\<close>

lemma createSale_fails_at:
  assumes its: "sd_items saleData = Some its"
    and pm: "truthy (sd_paymentMethod saleData)"
    and i: "i < length its"
    and earlier: "processItems (startTransaction st) (take i its) (Number 0) [] = Inr (ses, totalAmt, ls)"
    and fails: "products (working ses) (i_product (its ! i)) = None
           \<or> (\<exists>pr. products (working ses) (i_product (its ! i)) = Some pr
                   \<and> js_lt (p_stock pr) (i_quantity (its ! i)))"
  shows "createSale e usr saleData st =
           (Inl (case products (working ses) (i_product (its ! i)) of
                  None \<Rightarrow> ProductNotFound (i_product (its ! i))
                | Some pr \<Rightarrow> InsufficientStock (p_name pr) (p_stock pr) (i_quantity (its ! i))), st)"
proof -
  have parts: "its = take i its @ (its ! i) # drop (Suc i) its"
    using i by (simp add: id_take_nth_drop)
  have "processItems (startTransaction st) its (Number 0) [] =
          processItems ses ((its ! i) # drop (Suc i) its) totalAmt ls"
    by (subst parts, subst processItems_append) (simp add: earlier)
  also have "\<dots> = Inl (case products (working ses) (i_product (its ! i)) of
                  None \<Rightarrow> ProductNotFound (i_product (its ! i))
                | Some pr \<Rightarrow> InsufficientStock (p_name pr) (p_stock pr) (i_quantity (its ! i)))"
    by (rule processItems_fail_here [OF fails])
  finally have loop: "processItems (startTransaction st) its (Number 0) [] =
      Inl (case products (working ses) (i_product (its ! i)) of
                  None \<Rightarrow> ProductNotFound (i_product (its ! i))
                | Some pr \<Rightarrow> InsufficientStock (p_name pr) (p_stock pr) (i_quantity (its ! i)))" .
  have ne: "its \<noteq> []" using i by auto
  show ?thesis
    using its pm ne loop
    by (simp add: createSale_def Let_def abortTransaction_def startTransaction_def)
qed

subsection \<open>Failing items, read on the store before the call\<close>

text \<open>One turn of the loop on a valid product whose stock covers the quantity: the stock
  write is accepted.\<close>

lemma processItems_turn:
  assumes pr: "products (working ses) (i_product it) = Some pr" and valid: "validProduct pr"
    and q: "i_quantity it = Number q" and enough: "\<not> js_lt (p_stock pr) (Number q)"
  obtains ses1 where
    "ses1 = ses\<lparr>working := (working ses)\<lparr>products :=
       (products (working ses))(i_product it \<mapsto> pr\<lparr>p_stock := js_sub (p_stock pr) (Number q)\<rparr>)\<rparr>\<rparr>"
    and "validProduct (pr\<lparr>p_stock := js_sub (p_stock pr) (Number q)\<rparr>)"
    and "processItems ses (it # rest) t ls =
           processItems ses1 rest (js_add t (si_subtotal (draftLine it pr))) (ls @ [draftLine it pr])"
proof -
  define ses1 where "ses1 = ses\<lparr>working := (working ses)\<lparr>products :=
       (products (working ses))(i_product it \<mapsto> pr\<lparr>p_stock := js_sub (p_stock pr) (Number q)\<rparr>)\<rparr>\<rparr>"
  from valid have "js_le (Number 0) (p_stock pr)" by (simp add: validProduct_def)
  from js_sub_nonneg [OF this enough] valid
  have new: "validProduct (pr\<lparr>p_stock := js_sub (p_stock pr) (Number q)\<rparr>)"
    by (simp add: validProduct_stock(2))
  then have "saveStock ses (i_product it) pr (js_sub (p_stock pr) (i_quantity it)) = Inr ses1"
    by (simp add: saveStock_Inr q ses1_def)
  with pr q enough
  have "processItems ses (it # rest) t ls =
           processItems ses1 rest (js_add t (si_subtotal (draftLine it pr))) (ls @ [draftLine it pr])"
    by (simp add: Let_def draftLine_def)
  with ses1_def new show ?thesis by (rule that)
qed

text \<open>The errors of the loop on a valid store when every quantity is a number: an item
  of the request whose product is not in the store, or one that asks more than is
  available when its turn comes. The product has the name it had before the loop.\<close>

lemma processItems_numeric_errors:
  "\<forall>pid pr. products (working ses) pid = Some pr \<longrightarrow> validProduct pr \<Longrightarrow>
   \<forall>it\<in>set its. \<exists>q. i_quantity it = Number q \<Longrightarrow>
   processItems ses its t ls = Inl err \<Longrightarrow>
   (\<exists>it\<in>set its. products (working ses) (i_product it) = None
        \<and> err = ProductNotFound (i_product it))
   \<or> (\<exists>it\<in>set its. \<exists>pr a q. products (working ses) (i_product it) = Some pr
        \<and> i_quantity it = Number q \<and> js_lt a (Number q)
        \<and> err = InsufficientStock (p_name pr) a (Number q))"
proof (induction its arbitrary: ses t ls)
  case Nil
  then show ?case by simp
next
  case (Cons it rest)
  from Cons.prems(2) obtain q where q: "i_quantity it = Number q" by auto
  show ?case
  proof (cases "products (working ses) (i_product it)")
    case None
    with Cons.prems(3) show ?thesis by auto
  next
    case (Some pr)
    show ?thesis
    proof (cases "js_lt (p_stock pr) (Number q)")
      case True
      with Some q Cons.prems(3) show ?thesis by auto
    next
      case False
      from Cons.prems(1) Some have "validProduct pr" by blast
      from processItems_turn [OF Some this q False, of rest t ls] obtain ses1 where
        ses1: "ses1 = ses\<lparr>working := (working ses)\<lparr>products :=
           (products (working ses))(i_product it \<mapsto> pr\<lparr>p_stock := js_sub (p_stock pr) (Number q)\<rparr>)\<rparr>\<rparr>"
        and new: "validProduct (pr\<lparr>p_stock := js_sub (p_stock pr) (Number q)\<rparr>)"
        and turn: "processItems ses (it # rest) t ls =
           processItems ses1 rest (js_add t (si_subtotal (draftLine it pr))) (ls @ [draftLine it pr])"
        by blast
      from turn Cons.prems(3) obtain t1 ls1 where
        rest: "processItems ses1 rest t1 ls1 = Inl err"
        by auto
      from Cons.prems(1) new
      have valid1: "\<forall>pid pr. products (working ses1) pid = Some pr \<longrightarrow> validProduct pr"
        by (auto simp: ses1)
      from Cons.prems(2) have "\<forall>it\<in>set rest. \<exists>q. i_quantity it = Number q" by simp
      from Cons.IH [OF valid1 this rest] show ?thesis
      proof
        assume "\<exists>x\<in>set rest. products (working ses1) (i_product x) = None
                   \<and> err = ProductNotFound (i_product x)"
        then obtain x where "x \<in> set rest" and "products (working ses1) (i_product x) = None"
          and "err = ProductNotFound (i_product x)"
          by blast
        moreover from this have "products (working ses) (i_product x) = None"
          by (cases "i_product x = i_product it") (simp_all add: ses1)
        ultimately show ?thesis by auto
      next
        assume "\<exists>x\<in>set rest. \<exists>pr a q. products (working ses1) (i_product x) = Some pr
                   \<and> i_quantity x = Number q \<and> js_lt a (Number q)
                   \<and> err = InsufficientStock (p_name pr) a (Number q)"
        then obtain x pr1 a q1 where x: "x \<in> set rest"
          and pr1: "products (working ses1) (i_product x) = Some pr1"
          and more: "i_quantity x = Number q1" "js_lt a (Number q1)"
            "err = InsufficientStock (p_name pr1) a (Number q1)"
          by blast
        from pr1 Some obtain pr0 where pr0: "products (working ses) (i_product x) = Some pr0"
          and name: "p_name pr0 = p_name pr1"
          by (cases "i_product x = i_product it") (auto simp: ses1)
        from x have "x \<in> set (it # rest)" by simp
        moreover from pr0 name more
        have "\<exists>pr a q. products (working ses) (i_product x) = Some pr
                   \<and> i_quantity x = Number q \<and> js_lt a (Number q)
                   \<and> err = InsufficientStock (p_name pr) a (Number q)"
          by simp
        ultimately show ?thesis by blast
      qed
    qed
  qed
qed

text \<open>
  The loop cannot finish when an item names a product that is missing, or a product of
  which the transaction sees no more than a double \<open>b\<close> that the item exceeds: the stock
  of a product never rises in the loop, as the quantities are not negative and rounding
  a difference does not pass a double above it.
\<close>

lemma processItems_short:
  assumes "\<forall>pid pr. products (working ses) pid = Some pr \<longrightarrow> validProduct pr"
    and "\<forall>it\<in>set its. \<exists>q. i_quantity it = Number q \<and> 0 \<le> q"
    and "it \<in> set its"
    and "products (working ses) (i_product it) = None
         \<or> (\<exists>pr. products (working ses) (i_product it) = Some pr
                 \<and> js_le (p_stock pr) (Number b) \<and> fl b = Number b
                 \<and> js_lt (Number b) (i_quantity it))"
  shows "\<exists>err. processItems ses its t ls = Inl err"
  using assms
proof (induction its arbitrary: ses t ls)
  case Nil
  then show ?case by simp
next
  case (Cons a rest)
  from Cons.prems(2) obtain q where q: "i_quantity a = Number q" and q0: "0 \<le> q" by auto
  show ?case
  proof (cases "products (working ses) (i_product a)")
    case None
    then show ?thesis by simp
  next
    case (Some pr)
    show ?thesis
    proof (cases "js_lt (p_stock pr) (Number q)")
      case True
      with Some q show ?thesis by simp
    next
      case False
      from Cons.prems(1) Some have valid: "validProduct pr" by blast
      from processItems_turn [OF Some this q False, of rest t ls] obtain ses1 where
        ses1: "ses1 = ses\<lparr>working := (working ses)\<lparr>products :=
           (products (working ses))(i_product a \<mapsto> pr\<lparr>p_stock := js_sub (p_stock pr) (Number q)\<rparr>)\<rparr>\<rparr>"
        and new: "validProduct (pr\<lparr>p_stock := js_sub (p_stock pr) (Number q)\<rparr>)"
        and turn: "processItems ses (a # rest) t ls =
           processItems ses1 rest (js_add t (si_subtotal (draftLine a pr))) (ls @ [draftLine a pr])"
        by blast
      have other: "it \<noteq> a"
      proof
        assume same: "it = a"
        with Cons.prems(4) Some have "js_le (p_stock pr) (Number b)" and "js_lt (Number b) (Number q)"
          using q by auto
        from js_lt_trans [OF this] False show False by simp
      qed
      with Cons.prems(3) have mem: "it \<in> set rest" by simp
      from Cons.prems(1) new
      have valid1: "\<forall>pid pr. products (working ses1) pid = Some pr \<longrightarrow> validProduct pr"
        by (auto simp: ses1)
      from Cons.prems(2) have nums: "\<forall>it\<in>set rest. \<exists>q. i_quantity it = Number q \<and> 0 \<le> q"
        by simp
      have bad: "products (working ses1) (i_product it) = None
         \<or> (\<exists>pr. products (working ses1) (i_product it) = Some pr
                 \<and> js_le (p_stock pr) (Number b) \<and> fl b = Number b
                 \<and> js_lt (Number b) (i_quantity it))"
      proof (cases "i_product it = i_product a")
        case True
        with Cons.prems(4) Some have le: "js_le (p_stock pr) (Number b)"
          and b: "fl b = Number b" and lt: "js_lt (Number b) (i_quantity it)"
          by auto
        from valid have "js_le (Number 0) (p_stock pr)" by (simp add: validProduct_def)
        from js_sub_bounded [OF this le b q0 False] True b lt
        show ?thesis by (simp add: ses1)
      next
        case False
        with Cons.prems(4) show ?thesis by (simp add: ses1)
      qed
      from Cons.IH [OF valid1 nums mem bad] turn
      show ?thesis by simp
    qed
  qed
qed

lemma createSale_invalid_item_static:
  assumes its: "sd_items saleData = Some its" and pm: "truthy (sd_paymentMethod saleData)"
    and valid: "schemaValid st" and doubles: "stockDoubles st"
    and numeric: "\<forall>it\<in>set its. \<exists>q. i_quantity it = Number q \<and> 0 \<le> q"
    and mem: "it \<in> set its"
    and bad: "products st (i_product it) = None
              \<or> (\<exists>pr. products st (i_product it) = Some pr
                      \<and> js_lt (p_stock pr) (i_quantity it))"
  shows "\<exists>err. createSale e usr saleData st = (Inl err, st)
           \<and> ((\<exists>it\<in>set its. products st (i_product it) = None
                    \<and> err = ProductNotFound (i_product it))
                \<or> (\<exists>it\<in>set its. \<exists>pr a q. products st (i_product it) = Some pr
                    \<and> i_quantity it = Number q \<and> js_lt a (Number q)
                    \<and> err = InsufficientStock (p_name pr) a (Number q)))"
proof -
  from valid
  have prods: "\<forall>pid pr. products (working (startTransaction st)) pid = Some pr \<longrightarrow> validProduct pr"
    by (simp add: schemaValid_def startTransaction_def)
  have "\<exists>b. products (working (startTransaction st)) (i_product it) = None
         \<or> (\<exists>pr. products (working (startTransaction st)) (i_product it) = Some pr
                 \<and> js_le (p_stock pr) (Number b) \<and> fl b = Number b
                 \<and> js_lt (Number b) (i_quantity it))"
  proof (cases "products st (i_product it)")
    case None
    then show ?thesis by (simp add: startTransaction_def)
  next
    case (Some pr)
    with bad have short: "js_lt (p_stock pr) (i_quantity it)" by simp
    from valid Some have "js_le (Number 0) (p_stock pr)"
      by (auto simp: schemaValid_def validProduct_def)
    moreover from numeric mem obtain q where "i_quantity it = Number q" by blast
    ultimately obtain b where b: "p_stock pr = Number b"
      using short by (cases "p_stock pr") (auto simp: js_le_def)
    from doubles Some have "isDouble (p_stock pr)"
      unfolding stockDoubles_def by blast
    with b have "fl b = Number b" by (simp add: isDouble_def)
    with Some b short show ?thesis by (auto simp: startTransaction_def)
  qed
  then obtain b where "products (working (startTransaction st)) (i_product it) = None
         \<or> (\<exists>pr. products (working (startTransaction st)) (i_product it) = Some pr
                 \<and> js_le (p_stock pr) (Number b) \<and> fl b = Number b
                 \<and> js_lt (Number b) (i_quantity it))" ..
  from processItems_short [OF prods numeric mem this]
  obtain err where Inl: "processItems (startTransaction st) its (Number 0) [] = Inl err"
    by blast
  from mem have "its \<noteq> []" by auto
  with its pm Inl have run: "createSale e usr saleData st = (Inl err, st)"
    by (simp add: createSale_def Let_def abortTransaction_def startTransaction_def)
  from numeric have nums: "\<forall>it\<in>set its. \<exists>q. i_quantity it = Number q" by blast
  from processItems_numeric_errors [OF prods nums Inl]
  have "(\<exists>it\<in>set its. products st (i_product it) = None
                    \<and> err = ProductNotFound (i_product it))
                \<or> (\<exists>it\<in>set its. \<exists>pr a q. products st (i_product it) = Some pr
                    \<and> i_quantity it = Number q \<and> js_lt a (Number q)
                    \<and> err = InsufficientStock (p_name pr) a (Number q))"
    by (simp add: startTransaction_def)
  with run show ?thesis by blast
qed

text \<open>
  C1. Take a request that passes the two checks of the request. When an item fails its
  validation after the items before it have been applied, the call replies with the
  failure of that item: the product that does not resolve, or the insufficient stock
  with the name of the product, the stock available and the quantity requested; and the
  store it returns is the store it was given, so the stock writes of the items before
  are rolled back and no sale is added. Read on the store before the call, for a store
  whose documents satisfy their schemas and whose stocks are doubles, and for quantities
  that are numbers and not negative: when some item names a product that is not in the
  store, or asks more of a product than the store has of it, the call replies with a
  product of the request that is not found or with an insufficient stock whose available
  quantity is less than the quantity requested, and returns the store unchanged. Every
  error reply of a creation returns the store unchanged.
\<close>

theorem createSale_invalid_item_rollback:
  assumes its: "sd_items saleData = Some its"
    and pm: "truthy (sd_paymentMethod saleData)"
  shows "(\<forall>i ses totalAmt ls.
            i < length its
            \<and> processItems (startTransaction st) (take i its) (Number 0) [] = Inr (ses, totalAmt, ls)
            \<and> (products (working ses) (i_product (its ! i)) = None
                 \<or> (\<exists>pr. products (working ses) (i_product (its ! i)) = Some pr
                         \<and> js_lt (p_stock pr) (i_quantity (its ! i))))
            \<longrightarrow> createSale e usr saleData st =
                  (Inl (case products (working ses) (i_product (its ! i)) of
                          None \<Rightarrow> ProductNotFound (i_product (its ! i))
                        | Some pr \<Rightarrow> InsufficientStock (p_name pr) (p_stock pr)
                                       (i_quantity (its ! i))), st))
    \<and> (schemaValid st \<and> stockDoubles st
         \<and> (\<forall>it\<in>set its. \<exists>q. i_quantity it = Number q \<and> 0 \<le> q)
         \<and> (\<exists>it\<in>set its. products st (i_product it) = None
                \<or> (\<exists>pr. products st (i_product it) = Some pr
                        \<and> js_lt (p_stock pr) (i_quantity it)))
         \<longrightarrow> (\<exists>err. createSale e usr saleData st = (Inl err, st)
                \<and> (kind err = NotFound \<or> kind err = InsufficientStockError)
                \<and> ((\<exists>it\<in>set its. products st (i_product it) = None
                         \<and> err = ProductNotFound (i_product it))
                     \<or> (\<exists>it\<in>set its. \<exists>pr a q. products st (i_product it) = Some pr
                         \<and> i_quantity it = Number q \<and> js_lt a (Number q)
                         \<and> err = InsufficientStock (p_name pr) a (Number q)))))
    \<and> (\<forall>err st'. createSale e usr saleData st = (Inl err, st') \<longrightarrow> st' = st)"
proof (intro conjI allI impI)
  fix i ses totalAmt ls
  assume a: "i < length its
            \<and> processItems (startTransaction st) (take i its) (Number 0) [] = Inr (ses, totalAmt, ls)
            \<and> (products (working ses) (i_product (its ! i)) = None
                 \<or> (\<exists>pr. products (working ses) (i_product (its ! i)) = Some pr
                         \<and> js_lt (p_stock pr) (i_quantity (its ! i))))"
  then have i: "i < length its"
    and earlier: "processItems (startTransaction st) (take i its) (Number 0) [] = Inr (ses, totalAmt, ls)"
    and fails: "products (working ses) (i_product (its ! i)) = None
                 \<or> (\<exists>pr. products (working ses) (i_product (its ! i)) = Some pr
                         \<and> js_lt (p_stock pr) (i_quantity (its ! i)))"
    by simp_all
  show "createSale e usr saleData st =
                  (Inl (case products (working ses) (i_product (its ! i)) of
                          None \<Rightarrow> ProductNotFound (i_product (its ! i))
                        | Some pr \<Rightarrow> InsufficientStock (p_name pr) (p_stock pr)
                                       (i_quantity (its ! i))), st)"
    by (rule createSale_fails_at [OF its pm i earlier fails])
next
  assume a: "schemaValid st \<and> stockDoubles st
         \<and> (\<forall>it\<in>set its. \<exists>q. i_quantity it = Number q \<and> 0 \<le> q)
         \<and> (\<exists>it\<in>set its. products st (i_product it) = None
                \<or> (\<exists>pr. products st (i_product it) = Some pr
                        \<and> js_lt (p_stock pr) (i_quantity it)))"
  then obtain it where valid: "schemaValid st" and doubles: "stockDoubles st"
    and numeric: "\<forall>it\<in>set its. \<exists>q. i_quantity it = Number q \<and> 0 \<le> q"
    and mem: "it \<in> set its"
    and bad: "products st (i_product it) = None
                \<or> (\<exists>pr. products st (i_product it) = Some pr
                        \<and> js_lt (p_stock pr) (i_quantity it))"
    by blast
  from createSale_invalid_item_static [OF its pm valid doubles numeric mem bad, of e usr]
  obtain err where run: "createSale e usr saleData st = (Inl err, st)"
    and what: "(\<exists>it\<in>set its. products st (i_product it) = None
                         \<and> err = ProductNotFound (i_product it))
                     \<or> (\<exists>it\<in>set its. \<exists>pr a q. products st (i_product it) = Some pr
                         \<and> i_quantity it = Number q \<and> js_lt a (Number q)
                         \<and> err = InsufficientStock (p_name pr) a (Number q))"
    by blast
  from what have "kind err = NotFound \<or> kind err = InsufficientStockError" by auto
  with run what
  show "\<exists>err. createSale e usr saleData st = (Inl err, st)
                \<and> (kind err = NotFound \<or> kind err = InsufficientStockError)
                \<and> ((\<exists>it\<in>set its. products st (i_product it) = None
                         \<and> err = ProductNotFound (i_product it))
                     \<or> (\<exists>it\<in>set its. \<exists>pr a q. products st (i_product it) = Some pr
                         \<and> i_quantity it = Number q \<and> js_lt a (Number q)
                         \<and> err = InsufficientStock (p_name pr) a (Number q)))"
    by blast
next
  fix err st'
  assume "createSale e usr saleData st = (Inl err, st')"
  then show "st' = st" by (rule createSale_error_unchanged)
qed

theorem createSale_invalid_item_rollback_witness:
  "sd_items exShort = Some exShortItems \<and> truthy (sd_paymentMethod exShort)
   \<and> schemaValid exDb \<and> stockDoubles exDb \<and> 1 < length exShortItems
   \<and> i_product (exShortItems ! 1) = 2 \<and> i_quantity (exShortItems ! 1) = Number 10
   \<and> map_option p_stock (products exDb 2) = Some (Number 5)
   \<and> createSale exEnv (Some exUser) exShort exDb
       = (Inl (InsufficientStock ''Pan'' (Number 5) (Number 10)), exDb)
   \<and> kind (InsufficientStock ''Pan'' (Number 5) (Number 10)) = InsufficientStockError"
proof -
  have its: "sd_items exShort = Some exShortItems" by (simp add: example_defs)
  have pm: "truthy (sd_paymentMethod exShort)" by (simp add: example_defs truthy_def)
  have i: "1 < length exShortItems" by (simp add: example_defs)
  have "\<exists>ses totalAmt ls.
          processItems (startTransaction exDb) (take 1 exShortItems) (Number 0) [] = Inr (ses, totalAmt, ls)
          \<and> products (working ses) 2 = Some exB"
    by (simp add: example_defs createSale_defs)
  then obtain ses totalAmt ls where
    earlier: "processItems (startTransaction exDb) (take 1 exShortItems) (Number 0) [] = Inr (ses, totalAmt, ls)"
    and b: "products (working ses) 2 = Some exB"
    by blast
  have item: "exShortItems ! 1 = \<lparr>i_product = 2, i_quantity = Number 10, i_discount = None\<rparr>"
    unfolding exShortItems_def by simp
  have fails: "products (working ses) (i_product (exShortItems ! 1)) = None
           \<or> (\<exists>pr. products (working ses) (i_product (exShortItems ! 1)) = Some pr
                   \<and> js_lt (p_stock pr) (i_quantity (exShortItems ! 1)))"
    unfolding item using b by (simp add: exB_def)
  note all = createSale_invalid_item_rollback [OF its pm, of exDb exEnv "Some exUser"]
  from all i earlier fails
  have "createSale exEnv (Some exUser) exShort exDb =
          (Inl (case products (working ses) (i_product (exShortItems ! 1)) of
                  None \<Rightarrow> ProductNotFound (i_product (exShortItems ! 1))
                | Some pr \<Rightarrow> InsufficientStock (p_name pr) (p_stock pr)
                               (i_quantity (exShortItems ! 1))), exDb)"
    by blast
  then have reply: "createSale exEnv (Some exUser) exShort exDb
       = (Inl (InsufficientStock ''Pan'' (Number 5) (Number 10)), exDb)"
    unfolding item using b by (simp add: exB_def)
  have numeric: "\<forall>it\<in>set exShortItems. \<exists>q. i_quantity it = Number q \<and> 0 \<le> q"
    by (simp add: exShortItems_def)
  have bad: "\<exists>it\<in>set exShortItems. products exDb (i_product it) = None
                \<or> (\<exists>pr. products exDb (i_product it) = Some pr
                        \<and> js_lt (p_stock pr) (i_quantity it))"
    by (simp add: example_defs)
  from all exDb_valid exDb_doubles numeric bad
  have "\<exists>err. createSale exEnv (Some exUser) exShort exDb = (Inl err, exDb)
                \<and> (kind err = NotFound \<or> kind err = InsufficientStockError)"
    by blast
  with reply its pm i exDb_valid exDb_doubles show ?thesis by (simp add: example_defs)
qed

section \<open>The discount and the amounts of a created sale\<close>

lemma effectiveDiscount_rule:
  "effectiveDiscount it pr =
     (case i_discount it of
        Some d \<Rightarrow> if d \<noteq> Number 0 \<and> d \<noteq> NaN then d
                  else (case p_discount pr of
                          Some d' \<Rightarrow> if d' = NaN then Number 0 else d' | None \<Rightarrow> Number 0)
      | None \<Rightarrow> (case p_discount pr of
                   Some d' \<Rightarrow> if d' = NaN then Number 0 else d' | None \<Rightarrow> Number 0))"
  by (simp add: effectiveDiscount_def orZero_def js_or_def truthyNum_def split: option.splits)

text \<open>When the items name different products, each is served from the stock of the store.\<close>

lemma processItems_enough:
  "processItems ses its t ls = Inr (ses', t', ls') \<Longrightarrow> distinct (map i_product its) \<Longrightarrow>
   it \<in> set its \<Longrightarrow>
     \<exists>pr. products (working ses) (i_product it) = Some pr \<and> \<not> js_lt (p_stock pr) (i_quantity it)"
proof (induction its arbitrary: ses t ls)
  case Nil
  then show ?case by simp
next
  case (Cons a rest)
  from Cons.prems(1) obtain pr ses1 t1 ls1 where
    pr: "products (working ses) (i_product a) = Some pr"
    and enough: "\<not> js_lt (p_stock pr) (i_quantity a)"
    and save: "saveStock ses (i_product a) pr (js_sub (p_stock pr) (i_quantity a)) = Inr ses1"
    and rest: "processItems ses1 rest t1 ls1 = Inr (ses', t', ls')"
    by (rule processItems_step)
  show ?case
  proof (cases "it = a")
    case True
    with pr enough show ?thesis by simp
  next
    case False
    with Cons.prems(3) have mem: "it \<in> set rest" by simp
    from Cons.prems(2) have d: "distinct (map i_product rest)"
      and fresh: "i_product a \<notin> i_product ` set rest"
      by simp_all
    from fresh mem have other: "i_product it \<noteq> i_product a" by (metis imageI)
    from save have "products (working ses1) (i_product it) = products (working ses) (i_product it)"
      using other by (auto simp: saveStock_Inr)
    with Cons.IH [OF rest d mem] show ?thesis by simp
  qed
qed

text \<open>
  C2, as the specification words it, fails: the loop takes the first truthy value of the
  override, the discount of the product and 0, so an override of 0 does not override. For
  an item with an override of 0 on a product with a discount of 10, the line stored has
  discount 10, where the rule of the specification gives 0.
\<close>

theorem createSale_discount_zero_override_counterexample:
  "fst (createSale exEnv (Some exUser) exZero exDb) = Inr exZeroSale
   \<and> sd_items exZero = Some [exZeroItem]
   \<and> products exDb (i_product exZeroItem) = Some exC
   \<and> map si_discount (items exZeroSale) = [Number 10]
   \<and> specDiscount exZeroItem exC = Number 0"
  by (simp add: example_defs createSale_defs specDiscount_def)

text \<open>
  C2, amended. In every sale that a creation stores, the discount of a line is the
  override of its item when one is supplied and is not 0, otherwise the discount of the
  product when the product has one, otherwise 0. (A value that is not a number counts as
  absent in both places; a request and a valid store carry none.)
\<close>

theorem createSale_effective_discount:
  assumes ok: "createSale e usr saleData st = (Inr s, st')"
    and its: "sd_items saleData = Some its"
  shows "length (items s) = length its
    \<and> (\<forall>i<length its. \<exists>pr. products st (i_product (its ! i)) = Some pr
          \<and> si_discount (items s ! i) =
               (case i_discount (its ! i) of
                  Some d \<Rightarrow> if d \<noteq> Number 0 \<and> d \<noteq> NaN then d
                            else (case p_discount pr of
                                    Some d' \<Rightarrow> if d' = NaN then Number 0 else d'
                                  | None \<Rightarrow> Number 0)
                | None \<Rightarrow> (case p_discount pr of
                             Some d' \<Rightarrow> if d' = NaN then Number 0 else d'
                           | None \<Rightarrow> Number 0)))"
proof -
  note lines = createSale_Inr_items(1) [OF ok its]
  have "\<exists>pr. products st (i_product (its ! i)) = Some pr
          \<and> si_discount (items s ! i) = effectiveDiscount (its ! i) pr"
    if "i < length its" for i
    using list_all2_nthD [OF lines that] by (auto simp: draftLine_def)
  then show ?thesis
    using lines by (simp add: list_all2_lengthD effectiveDiscount_rule)
qed

theorem createSale_effective_discount_witness:
  "fst (createSale exEnv (Some exUser) exOverride exDb) = Inr exOverrideSale
   \<and> sd_items exOverride = Some [exZeroItem\<lparr>i_discount := Some (Number 25)\<rparr>]
   \<and> products exDb 3 = Some exC
   \<and> p_discount exC = Some (Number 10)
   \<and> map si_discount (items exOverrideSale) = [Number 25]"
proof -
  have res: "fst (createSale exEnv (Some exUser) exOverride exDb) = Inr exOverrideSale"
    by (rule createSale_exOverride)
  then have ok: "createSale exEnv (Some exUser) exOverride exDb
                   = (Inr exOverrideSale, snd (createSale exEnv (Some exUser) exOverride exDb))"
    by (simp add: prod_eq_iff)
  have its: "sd_items exOverride = Some [exZeroItem\<lparr>i_discount := Some (Number 25)\<rparr>]"
    by (simp add: example_defs)
  from createSale_effective_discount [OF ok its]
  have "\<exists>pr. products exDb 3 = Some pr
          \<and> si_discount (items exOverrideSale ! 0) =
               (case Some (Number 25) of
                  Some d \<Rightarrow> if d \<noteq> Number 0 \<and> d \<noteq> NaN then d
                            else (case p_discount pr of
                                    Some d' \<Rightarrow> if d' = NaN then Number 0 else d'
                                  | None \<Rightarrow> Number 0)
                | None \<Rightarrow> (case p_discount pr of
                             Some d' \<Rightarrow> if d' = NaN then Number 0 else d'
                           | None \<Rightarrow> Number 0))"
    by (simp add: exZeroItem_def)
  then have "si_discount (items exOverrideSale ! 0) = Number 25" by auto
  moreover have "length (items exOverrideSale) = 1" by (simp add: example_defs)
  ultimately have "map si_discount (items exOverrideSale) = [Number 25]"
    by (cases "items exOverrideSale") auto
  with res its show ?thesis by (simp add: example_defs)
qed

text \<open>
  C3, as the specification words it, fails in three places. The numbers of the
  controller are doubles and each operation rounds: for the quantity 1, the price 1000
  and an override of 7 the subtotal stored is 8180366510653439 / 8796093022208, the
  double just below 930, where the product of the real numbers is 930. And the discount that enters the
  subtotal is not the discount of the specification: for an override of 0 on a product
  with a discount of 10 the subtotal stored is 900, where the rule of the specification
  gives the discount 0 and the subtotal 1000. Last, when two items name the same product
  its stock goes down by both quantities, not by the quantity of the item: of 10, two
  items that ask 2 and 3 leave 5.
\<close>

theorem createSale_amounts_counterexample:
  "fst (createSale exEnv (Some exUser) exSeven exDb) = Inr exSevenSale
   \<and> map si_quantity (items exSevenSale) = [Number 1]
   \<and> map si_unitPrice (items exSevenSale) = [Number 1000]
   \<and> map si_discount (items exSevenSale) = [Number 7]
   \<and> map si_subtotal (items exSevenSale) = [Number (8180366510653439 / 8796093022208)]
   \<and> Number (8180366510653439 / 8796093022208) \<noteq> Number (specSubtotal 1 1000 7)
   \<and> specSubtotal 1 1000 7 = 930
   \<and> fst (createSale exEnv (Some exUser) exZero exDb) = Inr exZeroSale
   \<and> sd_items exZero = Some [exZeroItem]
   \<and> products exDb (i_product exZeroItem) = Some exC
   \<and> specDiscount exZeroItem exC = Number 0
   \<and> map si_quantity (items exZeroSale) = [Number 1]
   \<and> map si_unitPrice (items exZeroSale) = [Number 1000]
   \<and> map si_subtotal (items exZeroSale) = [Number 900]
   \<and> specSubtotal 1 1000 0 = 1000
   \<and> map_sum id (\<lambda>s. map si_product (items s)) (fst (createSale exEnv (Some exUser) exTwice exDb))
       = Inr [1, 1]
   \<and> map_sum id (\<lambda>s. map si_quantity (items s)) (fst (createSale exEnv (Some exUser) exTwice exDb))
       = Inr [Number 2, Number 3]
   \<and> map_option p_stock (products exDb 1) = Some (Number 10)
   \<and> map_option p_stock (products (snd (createSale exEnv (Some exUser) exTwice exDb)) 1)
       = Some (Number 5)"
proof -
  have twice: "map_sum id (\<lambda>s. map si_product (items s))
                 (fst (createSale exEnv (Some exUser) exTwice exDb)) = Inr [1, 1]
    \<and> map_sum id (\<lambda>s. map si_quantity (items s))
          (fst (createSale exEnv (Some exUser) exTwice exDb)) = Inr [Number 2, Number 3]
    \<and> map_option p_stock (products (snd (createSale exEnv (Some exUser) exTwice exDb)) 1)
       = Some (Number 5)"
    by (simp add: example_defs createSale_defs)
  have rest: "map si_quantity (items exSevenSale) = [Number 1]
   \<and> map si_unitPrice (items exSevenSale) = [Number 1000]
   \<and> map si_discount (items exSevenSale) = [Number 7]
   \<and> map si_subtotal (items exSevenSale) = [Number (8180366510653439 / 8796093022208)]
   \<and> Number (8180366510653439 / 8796093022208) \<noteq> Number (specSubtotal 1 1000 7)
   \<and> specSubtotal 1 1000 7 = 930
   \<and> sd_items exZero = Some [exZeroItem]
   \<and> products exDb (i_product exZeroItem) = Some exC
   \<and> specDiscount exZeroItem exC = Number 0
   \<and> map si_quantity (items exZeroSale) = [Number 1]
   \<and> map si_unitPrice (items exZeroSale) = [Number 1000]
   \<and> map si_subtotal (items exZeroSale) = [Number 900]
   \<and> specSubtotal 1 1000 0 = 1000
   \<and> map_option p_stock (products exDb 1) = Some (Number 10)"
    by (simp add: example_defs specDiscount_def specSubtotal_def)
  from createSale_exSeven createSale_exZero twice rest show ?thesis by blast
qed

text \<open>
  C3, amended. A creation that succeeds stores one line for each item of the request, in
  order, with the quantity of the item and the price of the product. The discount of the
  line is the override of the item when one is supplied and is not 0, otherwise the
  discount of the product when present, otherwise 0. The subtotal is the quantity times
  the price, rounded, times the rounded value of 1 - discount / 100, rounded: the
  operations of the source on doubles, in its order. The total of the sale is the sum of
  the subtotals, added one after the other from 0 and rounded at each step; it is their
  sum as real numbers when they are whole numbers that are not negative and their sum is
  at most \<open>2\<close> to the power 53. Every product keeps its fields but the stock, from which
  the quantities the request asks of it have been subtracted in order; when the items
  name different products, the stock of the product of an item is its stock before less
  the quantity of the item, rounded, and that is the difference of the real numbers when
  the stock and the quantity are whole numbers of at most \<open>2\<close> to the power 53.
\<close>

theorem createSale_amounts:
  assumes ok: "createSale e usr saleData st = (Inr s, st')"
    and its: "sd_items saleData = Some its"
  shows "length (items s) = length its
    \<and> (\<forall>i<length its. \<exists>pr. products st (i_product (its ! i)) = Some pr
          \<and> si_quantity (items s ! i) = i_quantity (its ! i)
          \<and> si_unitPrice (items s ! i) = p_price pr
          \<and> si_discount (items s ! i) =
               (case i_discount (its ! i) of
                  Some d \<Rightarrow> if d \<noteq> Number 0 \<and> d \<noteq> NaN then d
                            else (case p_discount pr of
                                    Some d' \<Rightarrow> if d' = NaN then Number 0 else d'
                                  | None \<Rightarrow> Number 0)
                | None \<Rightarrow> (case p_discount pr of
                             Some d' \<Rightarrow> if d' = NaN then Number 0 else d'
                           | None \<Rightarrow> Number 0))
          \<and> si_subtotal (items s ! i)
              = js_mul (js_mul (i_quantity (its ! i)) (p_price pr))
                       (js_sub (Number 1) (js_div100 (si_discount (items s ! i)))))
    \<and> totalAmount s = foldl js_add (Number 0) (map si_subtotal (items s))
    \<and> ((\<forall>l\<in>set (items s). wholeNumber (si_subtotal l) \<and> js_le (Number 0) (si_subtotal l))
          \<and> sum_list (map (\<lambda>l. realOf (si_subtotal l)) (items s)) \<le> 2 ^ 53
        \<longrightarrow> totalAmount s = Number (sum_list (map (\<lambda>l. realOf (si_subtotal l)) (items s))))
    \<and> (\<forall>pid pr. products st pid = Some pr \<longrightarrow>
          products st' pid = Some (pr\<lparr>p_stock := taken (p_stock pr) its pid\<rparr>))
    \<and> (distinct (map i_product its) \<longrightarrow>
          (\<forall>i<length its. \<exists>pr. products st (i_product (its ! i)) = Some pr
              \<and> products st' (i_product (its ! i))
                  = Some (pr\<lparr>p_stock := js_sub (p_stock pr) (i_quantity (its ! i))\<rparr>)
              \<and> (wholeNumber (p_stock pr) \<and> wholeNumber (i_quantity (its ! i))
                   \<longrightarrow> js_sub (p_stock pr) (i_quantity (its ! i))
                         = Number (realOf (p_stock pr) - realOf (i_quantity (its ! i))))))"
proof -
  note lines = createSale_Inr_items [OF ok its]
  have len: "length (items s) = length its"
    using lines(1) by (simp add: list_all2_lengthD)
  have each: "\<exists>pr. products st (i_product (its ! i)) = Some pr
          \<and> si_quantity (items s ! i) = i_quantity (its ! i)
          \<and> si_unitPrice (items s ! i) = p_price pr
          \<and> si_discount (items s ! i) =
               (case i_discount (its ! i) of
                  Some d \<Rightarrow> if d \<noteq> Number 0 \<and> d \<noteq> NaN then d
                            else (case p_discount pr of
                                    Some d' \<Rightarrow> if d' = NaN then Number 0 else d'
                                  | None \<Rightarrow> Number 0)
                | None \<Rightarrow> (case p_discount pr of
                             Some d' \<Rightarrow> if d' = NaN then Number 0 else d'
                           | None \<Rightarrow> Number 0))
          \<and> si_subtotal (items s ! i)
              = js_mul (js_mul (i_quantity (its ! i)) (p_price pr))
                       (js_sub (Number 1) (js_div100 (si_discount (items s ! i))))"
    if "i < length its" for i
  proof -
    from list_all2_nthD [OF lines(1) that] obtain pr where
      pr: "products st (i_product (its ! i)) = Some pr"
      and l: "items s ! i = draftLine (its ! i) pr"
      by blast
    have "si_discount (draftLine (its ! i) pr) = effectiveDiscount (its ! i) pr"
      and "si_quantity (draftLine (its ! i) pr) = i_quantity (its ! i)"
      and "si_unitPrice (draftLine (its ! i) pr) = p_price pr"
      and "si_subtotal (draftLine (its ! i) pr)
              = js_mul (js_mul (i_quantity (its ! i)) (p_price pr))
                       (js_sub (Number 1) (js_div100 (effectiveDiscount (its ! i) pr)))"
      by (simp_all add: draftLine_def)
    with pr l show ?thesis by (simp add: effectiveDiscount_rule)
  qed
  have exact: "totalAmount s = Number (sum_list (map (\<lambda>l. realOf (si_subtotal l)) (items s)))"
    if "(\<forall>l\<in>set (items s). wholeNumber (si_subtotal l) \<and> js_le (Number 0) (si_subtotal l))
          \<and> sum_list (map (\<lambda>l. realOf (si_subtotal l)) (items s)) \<le> 2 ^ 53"
  proof -
    from that have "\<forall>v\<in>set (map si_subtotal (items s)). wholeNumber v \<and> js_le (Number 0) v"
      and "of_int 0 + sum_list (map realOf (map si_subtotal (items s))) \<le> 2 ^ 53"
      by (simp_all add: comp_def)
    from foldl_js_add_whole [OF this(1) _ this(2)] lines(2) show ?thesis
      by (simp add: comp_def)
  qed
  have stock: "products st' pid = Some (pr\<lparr>p_stock := taken (p_stock pr) its pid\<rparr>)"
    if "products st pid = Some pr" for pid pr
    using createSale_Inr_db(1) [OF ok its, of pid] that by simp
  have single: "\<exists>pr. products st (i_product (its ! i)) = Some pr
              \<and> products st' (i_product (its ! i))
                  = Some (pr\<lparr>p_stock := js_sub (p_stock pr) (i_quantity (its ! i))\<rparr>)
              \<and> (wholeNumber (p_stock pr) \<and> wholeNumber (i_quantity (its ! i))
                   \<longrightarrow> js_sub (p_stock pr) (i_quantity (its ! i))
                         = Number (realOf (p_stock pr) - realOf (i_quantity (its ! i))))"
    if d: "distinct (map i_product its)" and i: "i < length its" for i
  proof -
    from i have mem: "its ! i \<in> set its" by simp
    from ok obtain ses' totalAmt ls where
      "sd_items saleData = Some its \<longrightarrow>
         processItems (startTransaction st) its (Number 0) [] = Inr (ses', totalAmt, ls)"
      by (rule createSale_Inr) auto
    with its have "processItems (startTransaction st) its (Number 0) [] = Inr (ses', totalAmt, ls)"
      by simp
    from processItems_enough [OF this d mem] obtain pr where
      pr: "products st (i_product (its ! i)) = Some pr"
      and enough: "\<not> js_lt (p_stock pr) (i_quantity (its ! i))"
      by (auto simp: startTransaction_def)
    from each [OF i] pr have q: "si_quantity (items s ! i) = i_quantity (its ! i)" by auto
    from createSale_Inr_fields(9) [OF ok] have "list_all validItem (items s)"
      by (simp add: validSale_def)
    with i len have "validItem (items s ! i)" by (simp add: list_all_length)
    with q have "js_le (Number 1) (i_quantity (its ! i))" by (simp add: validItem_def)
    then have q0: "js_le (Number 0) (i_quantity (its ! i))"
      by (cases "i_quantity (its ! i)") (auto simp: js_le_def)
    have "js_sub (p_stock pr) (i_quantity (its ! i))
            = Number (realOf (p_stock pr) - realOf (i_quantity (its ! i)))"
      if "wholeNumber (p_stock pr) \<and> wholeNumber (i_quantity (its ! i))"
      using that js_sub_whole(1) [OF _ _ enough q0] by blast
    moreover from stock [OF pr] taken_distinct [OF d mem, of "p_stock pr"]
    have "products st' (i_product (its ! i))
                  = Some (pr\<lparr>p_stock := js_sub (p_stock pr) (i_quantity (its ! i))\<rparr>)"
      by simp
    ultimately show ?thesis using pr by blast
  qed
  show ?thesis
  proof (intro conjI allI impI)
    show "length (items s) = length its" by (rule len)
    show "totalAmount s = foldl js_add (Number 0) (map si_subtotal (items s))" by (rule lines(2))
    show "totalAmount s = Number (sum_list (map (\<lambda>l. realOf (si_subtotal l)) (items s)))"
      if "(\<forall>l\<in>set (items s). wholeNumber (si_subtotal l) \<and> js_le (Number 0) (si_subtotal l))
          \<and> sum_list (map (\<lambda>l. realOf (si_subtotal l)) (items s)) \<le> 2 ^ 53"
      using that by (rule exact)
    show "products st' pid = Some (pr\<lparr>p_stock := taken (p_stock pr) its pid\<rparr>)"
      if "products st pid = Some pr" for pid pr
      using that by (rule stock)
  qed (use each single in blast)+
qed

theorem createSale_amounts_witness:
  "createSale exEnv (Some exUser) exData exDb = (Inr exSale, exDbSold)
   \<and> sd_items exData = Some exItems
   \<and> map si_subtotal (items exSale) = [Number 2400, Number 950]
   \<and> wholeNumber (Number 2400) \<and> wholeNumber (Number 950)
   \<and> sum_list (map (\<lambda>l. realOf (si_subtotal l)) (items exSale)) = 3350
   \<and> totalAmount exSale = Number 3350
   \<and> distinct (map i_product exItems)
   \<and> map i_product exItems = [1, 2] \<and> map i_quantity exItems = [Number 2, Number 1]
   \<and> products exDb 1 = Some exA \<and> p_stock exA = Number 10
   \<and> products exDbSold 1 = Some (exA\<lparr>p_stock := Number 8\<rparr>)
   \<and> products exDb 2 = Some exB \<and> p_stock exB = Number 5
   \<and> products exDbSold 2 = Some (exB\<lparr>p_stock := Number 4\<rparr>)
   \<and> fst (createSale exEnv (Some exUser) exSeven exDb) = Inr exSevenSale
   \<and> sd_items exSeven = Some [exZeroItem\<lparr>i_discount := Some (Number 7)\<rparr>]
   \<and> products exDb 3 = Some exC \<and> p_price exC = Number 1000 \<and> p_discount exC = Some (Number 10)
   \<and> si_discount (items exSevenSale ! 0) = Number 7
   \<and> si_subtotal (items exSevenSale ! 0)
        = js_mul (js_mul (Number 1) (Number 1000)) (js_sub (Number 1) (js_div100 (Number 7)))
   \<and> si_subtotal (items exSevenSale ! 0) = Number (8180366510653439 / 8796093022208)"
proof -
  have ok: "createSale exEnv (Some exUser) exData exDb = (Inr exSale, exDbSold)"
    by (rule createSale_exData)
  have its: "sd_items exData = Some exItems" by (simp add: example_defs)
  note sold = createSale_amounts [OF ok its]
  have whole: "\<forall>l\<in>set (items exSale). wholeNumber (si_subtotal l) \<and> js_le (Number 0) (si_subtotal l)"
    by (simp add: exSale_def wholeNumber_def)
  have total: "sum_list (map (\<lambda>l. realOf (si_subtotal l)) (items exSale)) = 3350"
    by (simp add: exSale_def)
  from sold
  have "(\<forall>l\<in>set (items exSale). wholeNumber (si_subtotal l) \<and> js_le (Number 0) (si_subtotal l))
          \<and> sum_list (map (\<lambda>l. realOf (si_subtotal l)) (items exSale)) \<le> 2 ^ 53
        \<longrightarrow> totalAmount exSale
              = Number (sum_list (map (\<lambda>l. realOf (si_subtotal l)) (items exSale)))"
    by blast
  with whole total have amount: "totalAmount exSale = Number 3350" by simp
  have d: "distinct (map i_product exItems)" by (simp add: exItems_def)
  have a: "products exDb 1 = Some exA" and b: "products exDb 2 = Some exB"
    by (simp_all add: exDb_def)
  have i0: "exItems ! 0 = \<lparr>i_product = 1, i_quantity = Number 2, i_discount = None\<rparr>"
    and i1: "exItems ! 1 = \<lparr>i_product = 2, i_quantity = Number 1, i_discount = None\<rparr>"
    by (simp_all add: exItems_def)
  have len: "0 < length exItems" "1 < length exItems" by (simp_all add: exItems_def)
  from sold d len(1)
  have "\<exists>pr. products exDb (i_product (exItems ! 0)) = Some pr
          \<and> products exDbSold (i_product (exItems ! 0))
               = Some (pr\<lparr>p_stock := js_sub (p_stock pr) (i_quantity (exItems ! 0))\<rparr>)
          \<and> (wholeNumber (p_stock pr) \<and> wholeNumber (i_quantity (exItems ! 0))
                \<longrightarrow> js_sub (p_stock pr) (i_quantity (exItems ! 0))
                      = Number (realOf (p_stock pr) - realOf (i_quantity (exItems ! 0))))"
    by blast
  with a have stockA: "products exDbSold 1 = Some (exA\<lparr>p_stock := Number 8\<rparr>)"
    unfolding i0 by (simp add: exA_def wholeNumber_def)
  from sold d len(2)
  have "\<exists>pr. products exDb (i_product (exItems ! 1)) = Some pr
          \<and> products exDbSold (i_product (exItems ! 1))
               = Some (pr\<lparr>p_stock := js_sub (p_stock pr) (i_quantity (exItems ! 1))\<rparr>)
          \<and> (wholeNumber (p_stock pr) \<and> wholeNumber (i_quantity (exItems ! 1))
                \<longrightarrow> js_sub (p_stock pr) (i_quantity (exItems ! 1))
                      = Number (realOf (p_stock pr) - realOf (i_quantity (exItems ! 1))))"
    by blast
  with b have stockB: "products exDbSold 2 = Some (exB\<lparr>p_stock := Number 4\<rparr>)"
    unfolding i1 by (simp add: exB_def wholeNumber_def)
  have res7: "fst (createSale exEnv (Some exUser) exSeven exDb) = Inr exSevenSale"
    by (rule createSale_exSeven)
  then have ok7: "createSale exEnv (Some exUser) exSeven exDb
                   = (Inr exSevenSale, snd (createSale exEnv (Some exUser) exSeven exDb))"
    by (simp add: prod_eq_iff)
  have its7: "sd_items exSeven = Some [exZeroItem\<lparr>i_discount := Some (Number 7)\<rparr>]"
    by (simp add: example_defs)
  have c: "products exDb 3 = Some exC" by (simp add: exDb_def)
  from createSale_amounts [OF ok7 its7]
  have "\<exists>pr. products exDb 3 = Some pr
          \<and> si_discount (items exSevenSale ! 0) =
               (case Some (Number 7) of
                  Some d \<Rightarrow> if d \<noteq> Number 0 \<and> d \<noteq> NaN then d
                            else (case p_discount pr of
                                    Some d' \<Rightarrow> if d' = NaN then Number 0 else d'
                                  | None \<Rightarrow> Number 0)
                | None \<Rightarrow> (case p_discount pr of
                             Some d' \<Rightarrow> if d' = NaN then Number 0 else d'
                           | None \<Rightarrow> Number 0))
          \<and> si_subtotal (items exSevenSale ! 0)
              = js_mul (js_mul (Number 1) (p_price pr))
                       (js_sub (Number 1) (js_div100 (si_discount (items exSevenSale ! 0))))"
    by (simp add: exZeroItem_def) blast
  with c have seven: "si_discount (items exSevenSale ! 0) = Number 7"
    "si_subtotal (items exSevenSale ! 0)
        = js_mul (js_mul (Number 1) (Number 1000)) (js_sub (Number 1) (js_div100 (Number 7)))"
    by (auto simp: exC_def)
  have stored: "si_subtotal (items exSevenSale ! 0) = Number (8180366510653439 / 8796093022208)"
    by (simp add: example_defs)
  have rest: "map i_product exItems = [1, 2] \<and> map i_quantity exItems = [Number 2, Number 1]
    \<and> p_stock exA = Number 10 \<and> p_stock exB = Number 5
    \<and> p_price exC = Number 1000 \<and> p_discount exC = Some (Number 10)"
    by (simp add: example_defs)
  have subs: "map si_subtotal (items exSale) = [Number 2400, Number 950]
    \<and> wholeNumber (Number 2400) \<and> wholeNumber (Number 950)"
    by (simp add: exSale_def wholeNumber_def)
  from ok its subs total amount d a b stockA stockB res7 its7 c seven stored rest
  show ?thesis by (simp only: simp_thms)
qed

section \<open>The checks of the request\<close>

lemma createSale_items_required:
  "sd_items saleData = None \<or> sd_items saleData = Some [] \<Longrightarrow>
     createSale e usr saleData st = (Inl ItemsRequired, st)"
  by (auto simp: createSale_def Let_def startTransaction_def endSession_def)

lemma createSale_paymentMethod_required:
  "sd_items saleData = Some its \<Longrightarrow> its \<noteq> [] \<Longrightarrow> \<not> truthy (sd_paymentMethod saleData) \<Longrightarrow>
     createSale e usr saleData st = (Inl PaymentMethodRequired, st)"
  by (simp add: createSale_def Let_def startTransaction_def endSession_def)

lemma processItems_error_kind:
  "processItems ses its t ls = Inl err \<Longrightarrow> kind err \<noteq> ValidationError"
proof (induction its arbitrary: ses t ls)
  case Nil
  then show ?case by simp
next
  case (Cons it rest)
  then show ?case
    by (auto simp: Let_def split: option.splits if_splits sum.splits dest: saveStock_Inl)
qed

text \<open>A quantity that is not a number passes the stock comparison, and the stock write
  that follows is refused.\<close>

lemma processItems_numeric:
  "processItems ses its t ls = Inr (ses', t', ls') \<Longrightarrow> it \<in> set its \<Longrightarrow> i_quantity it \<noteq> NaN"
proof (induction its arbitrary: ses t ls)
  case Nil
  then show ?case by simp
next
  case (Cons a rest)
  from Cons.prems(1) obtain pr ses1 t1 ls1 where
    save: "saveStock ses (i_product a) pr (js_sub (p_stock pr) (i_quantity a)) = Inr ses1"
    and rest: "processItems ses1 rest t1 ls1 = Inr (ses', t', ls')"
    by (rule processItems_step)
  from save have "js_le (Number 0) (js_sub (p_stock pr) (i_quantity a))"
    by (auto simp: saveStock_Inr dest: validProduct_stock(1))
  then have "i_quantity a \<noteq> NaN"
    by (cases "p_stock pr"; cases "i_quantity a") simp_all
  with Cons.IH [OF rest] Cons.prems(2) show ?case by auto
qed

lemma createSale_non_numeric:
  assumes its: "sd_items saleData = Some its" and pm: "truthy (sd_paymentMethod saleData)"
    and mem: "it \<in> set its" and nan: "i_quantity it = NaN"
  shows "\<exists>err. createSale e usr saleData st = (Inl err, st) \<and> kind err \<noteq> ValidationError"
proof (cases "processItems (startTransaction st) its (Number 0) []")
  case (Inl err)
  from mem have "its \<noteq> []" by auto
  with its pm Inl have "createSale e usr saleData st = (Inl err, st)"
    by (simp add: createSale_def Let_def abortTransaction_def startTransaction_def)
  with processItems_error_kind [OF Inl] show ?thesis by blast
next
  case (Inr r)
  obtain ses' t' ls' where "r = (ses', t', ls')" by (cases r)
  with Inr processItems_numeric [of "startTransaction st" its "Number 0" "[]" ses' t' ls' it] mem nan
  show ?thesis by simp
qed

text \<open>
  C8 at the input that breaks it. The second item has a quantity that is not numeric. No
  check of the request stops it: the first item is applied inside the transaction, the
  stock comparison of the second item is false, its stock write is refused by the schema,
  and the reply is the server failure of the handler, status 500, not a validation
  error. The stock adjustment of the product controller does reject such a quantity as a
  validation error.
\<close>

theorem createSale_non_numeric_quantity_reply:
  "createSale exEnv (Some exUser) exNaN exDb = (Inl ServerError, exDb)
   \<and> kind ServerError = StorageFailure \<and> httpStatus ServerError = 500
   \<and> map_option p_stock
        (products (working (fst (projr
           (processItems (startTransaction exDb) (take 1 exNaNItems) (Number 0) [])))) 1)
        = Some (Number 8)
   \<and> map_option p_stock (products exDb 1) = Some (Number 10)
   \<and> adjustStock 2 (Some NaN) None exDb = (Inl QuantityRequired, exDb)
   \<and> kind QuantityRequired = ValidationError"
  by (simp add: example_defs createSale_defs adjustStock_def)

section \<open>Decimal strings and sale numbers\<close>

lemma digit_cases:
  "d < 10 \<Longrightarrow> d = 0 \<or> d = 1 \<or> d = 2 \<or> d = 3 \<or> d = 4 \<or> d = 5 \<or> d = 6 \<or> d = 7 \<or> d = 8 \<or> d = (9::nat)"
  by arith

lemma digitVal_digitChar: "d < 10 \<Longrightarrow> digitVal (digitChar d) = d"
  using digit_cases [of d] by (auto simp: digitVal_def digitChar_def)

lemma digitChar_not_hyphen: "digitChar d \<noteq> CHR ''-''"
proof -
  have "d mod 10 < 10" by simp
  from digit_cases [OF this] show ?thesis
    by (auto simp: digitChar_def)
qed

lemma fromDigits_snoc: "fromDigits (s @ [c]) = 10 * fromDigits s + digitVal c"
  by (simp add: fromDigits_def)

lemma fromDigits_toString: "fromDigits (toString n) = n"
proof (induction n rule: toString.induct)
  case (1 n)
  show ?case
  proof (cases "n < 10")
    case True
    then show ?thesis
      by (subst toString.simps) (simp add: fromDigits_def digitVal_digitChar)
  next
    case False
    have "fromDigits (toString n) = 10 * fromDigits (toString (n div 10)) + digitVal (digitChar (n mod 10))"
      using False by (subst toString.simps) (simp add: fromDigits_snoc)
    also have "\<dots> = 10 * (n div 10) + n mod 10"
      using "1.IH" [OF False] by (simp add: digitVal_digitChar)
    finally show ?thesis by simp
  qed
qed

lemma toString_no_hyphen: "CHR ''-'' \<notin> set (toString n)"
proof (induction n rule: toString.induct)
  case (1 n)
  show ?case
  proof (cases "n < 10")
    case True
    then show ?thesis
      using digitChar_not_hyphen [of n] by (subst toString.simps) auto
  next
    case False
    then show ?thesis
      using "1.IH" [OF False] digitChar_not_hyphen [of "n mod 10"]
      by (subst toString.simps) auto
  qed
qed

lemma fromDigits_zeros: "fromDigits (replicate k (CHR ''0'') @ s) = fromDigits s"
proof -
  have "foldl (\<lambda>a c. 10 * a + digitVal c) 0 (replicate k (CHR ''0'')) = 0"
    by (induction k) (simp_all add: digitVal_def)
  then show ?thesis by (simp add: fromDigits_def)
qed

lemma fromDigits_padStart: "fromDigits (padStart k (CHR ''0'') (toString n)) = n"
  by (simp add: padStart_def fromDigits_zeros fromDigits_toString)

lemma dropWhile_until: "c \<notin> set xs \<Longrightarrow> dropWhile (\<lambda>x. x \<noteq> c) (xs @ c # ys) = c # ys"
  by (induction xs) auto

lemma takeWhile_until: "c \<notin> set xs \<Longrightarrow> takeWhile (\<lambda>x. x \<noteq> c) (xs @ c # ys) = xs"
  by (induction xs) auto

lemma seqOf_formatSaleNumber: "seqOf (formatSaleNumber y n) = n"
proof -
  have "dropWhile (\<lambda>c. c \<noteq> CHR ''-'') (''V'' @ toString y @ ''-'' @ padStart 3 (CHR ''0'') (toString n))
          = ''-'' @ padStart 3 (CHR ''0'') (toString n)"
    using dropWhile_until [OF toString_no_hyphen, of y] by simp
  then show ?thesis
    by (simp add: seqOf_def formatSaleNumber_def fromDigits_padStart)
qed

lemma yearOf_formatSaleNumber:
  "fromDigits (takeWhile (\<lambda>c. c \<noteq> CHR ''-'') (drop 1 (formatSaleNumber y n))) = y"
proof -
  have "takeWhile (\<lambda>c. c \<noteq> CHR ''-'') (toString y @ ''-'' @ padStart 3 (CHR ''0'') (toString n))
          = toString y"
    using takeWhile_until [OF toString_no_hyphen, of y] by simp
  then show ?thesis
    by (simp add: formatSaleNumber_def fromDigits_toString)
qed

lemma formatSaleNumber_inject:
  "formatSaleNumber y n = formatSaleNumber y' n' \<longleftrightarrow> y = y' \<and> n = n'"
  by (metis seqOf_formatSaleNumber yearOf_formatSaleNumber)

lemma sequenced_fresh:
  assumes "sequenced ss"
  shows "formatSaleNumber y (length ss + 1) \<notin> set (map saleNumber ss)"
proof
  assume "formatSaleNumber y (length ss + 1) \<in> set (map saleNumber ss)"
  then obtain i where i: "i < length ss" and eq: "saleNumber (ss ! i) = formatSaleNumber y (length ss + 1)"
    by (auto simp: in_set_conv_nth)
  from assms i have "seqOf (saleNumber (ss ! i)) \<le> i + 1" by (simp add: sequenced_def)
  with eq i show False by (simp add: seqOf_formatSaleNumber)
qed

lemma sequenced_snoc:
  assumes "sequenced ss" and "seqOf (saleNumber s) \<le> length ss + 1"
  shows "sequenced (ss @ [s])"
  using assms by (auto simp: sequenced_def nth_append less_Suc_eq)

lemma replaceFirst_length [simp]: "length (replaceFirst s' ss) = length ss"
  by (induction ss) simp_all

lemma replaceFirst_numbers:
  "find (\<lambda>s. s_id s = s_id s') ss = Some s0 \<Longrightarrow> saleNumber s' = saleNumber s0 \<Longrightarrow>
     map saleNumber (replaceFirst s' ss) = map saleNumber ss"
  by (induction ss) (auto split: if_splits)

lemma sequenced_map_eq:
  "map saleNumber ss' = map saleNumber ss \<Longrightarrow> sequenced ss' = sequenced ss"
proof -
  assume eq: "map saleNumber ss' = map saleNumber ss"
  then have len: "length ss' = length ss" by (metis length_map)
  have "saleNumber (ss' ! i) = saleNumber (ss ! i)" if "i < length ss" for i
    using that eq len by (metis nth_map)
  with len show ?thesis by (simp add: sequenced_def)
qed

text \<open>
  C7, as the claim words it, fails: the sequence is one more than the number of all the
  sales of the ledger, whatever their year. With one sale of 2023 in the ledger, the first
  sale of 2024 is numbered \<open>V2024-002\<close>, where the claim gives \<open>V2024-001\<close>.
\<close>

theorem createSale_number_counts_all_years_counterexample:
  "map_sum id saleNumber (fst (createSale exEnv (Some exUser) exData exOldDb)) = Inr ''V2024-002''
   \<and> year (now exEnv) = 2024
   \<and> map (\<lambda>s. year (createdAt s)) (sales exOldDb) = [2023]
   \<and> specSaleNumber 2024 (sales exOldDb) = ''V2024-001''"
proof -
  have second: "formatSaleNumber 2024 (Suc (Suc 0)) = ''V2024-002''" by code_simp
  show ?thesis
    by (simp add: example_defs createSale_defs specSaleNumber_def second)
qed

text \<open>
  C7, amended. The number of a sale that a creation stores is \<open>V\<close>, the current year, a
  hyphen, and n + 1 padded with zeros to three digits, where n is the number of all the
  sales in the ledger. It is the number of no sale of the ledger. In a sequenced ledger
  (the empty ledger is one, and every operation keeps a ledger sequenced) its sequence
  part is greater than that of every sale before it, and the ledger stays sequenced.
\<close>

theorem createSale_saleNumber:
  assumes ok: "createSale e usr saleData st = (Inr s, st')"
  shows "saleNumber s = ''V'' @ toString (year (now e)) @ ''-''
                          @ padStart 3 (CHR ''0'') (toString (length (sales st) + 1))
    \<and> seqOf (saleNumber s) = length (sales st) + 1
    \<and> saleNumber s \<notin> set (map saleNumber (sales st))
    \<and> (sequenced (sales st) \<longrightarrow>
          (\<forall>t\<in>set (sales st). seqOf (saleNumber t) < seqOf (saleNumber s))
          \<and> sequenced (sales st'))"
proof -
  from ok obtain its where its: "sd_items saleData = Some its"
    by (rule createSale_Inr)
  have num: "saleNumber s = formatSaleNumber (year (now e)) (length (sales st) + 1)"
    by (rule createSale_Inr_fields(2) [OF ok])
  then have seq: "seqOf (saleNumber s) = length (sales st) + 1"
    by (simp add: seqOf_formatSaleNumber)
  have fresh: "saleNumber s \<notin> set (map saleNumber (sales st))"
    by (rule createSale_Inr_db(4) [OF ok its])
  have later: "seqOf (saleNumber t) < seqOf (saleNumber s)"
    if inv: "sequenced (sales st)" and t: "t \<in> set (sales st)" for t
  proof -
    from t obtain i where "i < length (sales st)" and "sales st ! i = t"
      by (auto simp: in_set_conv_nth)
    with inv have "seqOf (saleNumber t) \<le> i + 1" and "i < length (sales st)"
      by (auto simp: sequenced_def)
    with seq show ?thesis by simp
  qed
  have keeps: "sequenced (sales st')" if inv: "sequenced (sales st)"
    using sequenced_snoc [OF inv, of s] seq createSale_Inr_db(2) [OF ok its] by simp
  from num seq fresh later keeps show ?thesis
    by (simp add: formatSaleNumber_def)
qed

theorem createSale_saleNumber_witness:
  "createSale exEnv (Some exUser) exData exDb = (Inr exSale, exDbSold)
   \<and> sequenced (sales exDb)
   \<and> saleNumber exSale = ''V2024-001''
   \<and> seqOf (saleNumber exSale) = length (sales exDb) + 1
   \<and> sequenced (sales exDbSold)"
proof -
  have ok: "createSale exEnv (Some exUser) exData exDb = (Inr exSale, exDbSold)"
    by (rule createSale_exData)
  have inv: "sequenced (sales exDb)" by (simp add: exDb_def sequenced_def)
  from createSale_saleNumber [OF ok] inv
  have "seqOf (saleNumber exSale) = length (sales exDb) + 1" and "sequenced (sales exDbSold)"
    by blast+
  with ok inv show ?thesis by (simp add: exSale_def)
qed

section \<open>Cancelling and the stock\<close>

lemma find_id: "find (\<lambda>x. s_id x = i) ss = Some s \<Longrightarrow> s_id s = i \<and> s \<in> set ss"
  by (induction ss) (auto split: if_splits)

lemma find_replaceFirst:
  "find (\<lambda>x. s_id x = i) ss = Some s \<Longrightarrow> s_id s' = i \<Longrightarrow>
     find (\<lambda>x. s_id x = i) (replaceFirst s' ss) = Some s'"
  by (induction ss) (auto split: if_splits)

lemma find_replaceFirst_other:
  "s_id s' \<noteq> i \<Longrightarrow> find (\<lambda>x. s_id x = s_id s') ss = Some s0 \<Longrightarrow>
     find (\<lambda>x. s_id x = i) (replaceFirst s' ss) = find (\<lambda>x. s_id x = i) ss"
  by (induction ss) (auto split: if_splits)

lemma restoreStock_ok:
  assumes "\<forall>pid pr. products (working ses) pid = Some pr \<longrightarrow> validProduct pr"
    and "\<forall>l\<in>set ls. js_le (Number 0) (si_quantity l)"
  shows "\<exists>ses'. restoreStock ses ls = Inr ses'
           \<and> committed ses' = committed ses \<and> sales (working ses') = sales (working ses)
           \<and> (\<forall>pid. products (working ses') pid =
                 map_option (\<lambda>pr. pr\<lparr>p_stock := restored (p_stock pr) ls pid\<rparr>)
                   (products (working ses) pid))"
  using assms
proof (induction ls arbitrary: ses)
  case Nil
  show ?case by (simp add: restored_def option.map_ident)
next
  case (Cons l rest)
  from Cons.prems(2) have q: "js_le (Number 0) (si_quantity l)"
    and qs: "\<forall>l\<in>set rest. js_le (Number 0) (si_quantity l)"
    by simp_all
  show ?case
  proof (cases "products (working ses) (si_product l)")
    case None
    from Cons.IH [OF Cons.prems(1) qs] obtain ses' where
      run: "restoreStock ses rest = Inr ses'"
      and same: "committed ses' = committed ses" "sales (working ses') = sales (working ses)"
      and stock: "\<forall>pid. products (working ses') pid =
                 map_option (\<lambda>pr. pr\<lparr>p_stock := restored (p_stock pr) rest pid\<rparr>)
                   (products (working ses) pid)"
      by blast
    have "products (working ses') pid =
                 map_option (\<lambda>pr. pr\<lparr>p_stock := restored (p_stock pr) (l # rest) pid\<rparr>)
                   (products (working ses) pid)" for pid
      using stock None by (cases "pid = si_product l") (simp_all add: restored_def)
    with run same None show ?thesis by simp
  next
    case (Some pr)
    define ses1 where "ses1 = ses\<lparr>working := (working ses)\<lparr>products :=
        (products (working ses))(si_product l \<mapsto> pr\<lparr>p_stock := js_add (p_stock pr) (si_quantity l)\<rparr>)\<rparr>\<rparr>"
    from Cons.prems(1) Some have pr: "validProduct pr" by blast
    then have "js_le (Number 0) (p_stock pr)" by (simp add: validProduct_def)
    from js_add_nonneg [OF this q] pr
    have new: "validProduct (pr\<lparr>p_stock := js_add (p_stock pr) (si_quantity l)\<rparr>)"
      by (simp add: validProduct_stock(2))
    then have save: "saveStock ses (si_product l) pr (js_add (p_stock pr) (si_quantity l)) = Inr ses1"
      by (simp add: saveStock_Inr ses1_def)
    have inv1: "\<forall>pid pr. products (working ses1) pid = Some pr \<longrightarrow> validProduct pr"
      using Cons.prems(1) new by (auto simp: ses1_def)
    from Cons.IH [OF inv1 qs] obtain ses' where
      run: "restoreStock ses1 rest = Inr ses'"
      and same: "committed ses' = committed ses1" "sales (working ses') = sales (working ses1)"
      and stock: "\<forall>pid. products (working ses') pid =
                 map_option (\<lambda>pr. pr\<lparr>p_stock := restored (p_stock pr) rest pid\<rparr>)
                   (products (working ses1) pid)"
      by blast
    have "products (working ses') pid =
                 map_option (\<lambda>pr. pr\<lparr>p_stock := restored (p_stock pr) (l # rest) pid\<rparr>)
                   (products (working ses) pid)" for pid
      using stock Some by (cases "pid = si_product l") (simp_all add: restored_def ses1_def)
    moreover have "committed ses' = committed ses" "sales (working ses') = sales (working ses)"
      using same by (simp_all add: ses1_def)
    ultimately show ?thesis
      using run save Some by simp
  qed
qed

text \<open>Whole numbers come back exactly.\<close>

lemma restored_whole:
  assumes stock: "wholeNumber stock" "js_le (Number 0) stock"
    and lines: "\<forall>l\<in>set ls. wholeNumber (si_quantity l) \<and> js_le (Number 0) (si_quantity l)"
    and bound: "realOf stock + returned ls pid \<le> 2 ^ 53"
  shows "restored stock ls pid = Number (realOf stock + returned ls pid)"
proof -
  from stock obtain m where m: "stock = Number (of_int m)" and m0: "0 \<le> m"
    by (auto elim: wholeNumber_int)
  let ?vs = "map si_quantity (filter (\<lambda>l. si_product l = pid) ls)"
  have sum: "sum_list (map realOf ?vs) = returned ls pid"
    by (simp add: returned_def comp_def)
  from lines have "\<forall>v\<in>set ?vs. wholeNumber v \<and> js_le (Number 0) v" by auto
  moreover from bound m have "of_int m + sum_list (map realOf ?vs) \<le> 2 ^ 53"
    unfolding sum by simp
  ultimately have "foldl js_add (Number (of_int m)) ?vs
                     = Number (of_int m + sum_list (map realOf ?vs))"
    using m0 by (intro foldl_js_add_whole)
  with m show ?thesis unfolding sum by (simp add: restored_def)
qed

lemma restoreStock_committed:
  "restoreStock ses ls = Inr ses' \<Longrightarrow> committed ses' = committed ses"
proof (induction ls arbitrary: ses)
  case Nil
  then show ?case by simp
next
  case (Cons l rest)
  then show ?case
    by (auto simp: saveStock_Inr split: option.splits sum.splits)
qed

lemma cancelSale_error_unchanged:
  "cancelSale saleId st = (Inl err, st') \<Longrightarrow> st' = st"
  by (auto simp: cancelSale_def Let_def startTransaction_def abortTransaction_def
      split: option.splits if_splits sum.splits dest!: restoreStock_committed)

lemma cancelSale_ok:
  assumes valid: "schemaValid st"
    and found: "findById st saleId = Some s"
    and live: "paymentStatus s \<noteq> ''cancelado''"
  shows "\<exists>st'. cancelSale saleId st = (Inr (s\<lparr>paymentStatus := ''cancelado''\<rparr>), st')
          \<and> (\<forall>pid. products st' pid =
                map_option (\<lambda>pr. pr\<lparr>p_stock := restored (p_stock pr) (items s) pid\<rparr>) (products st pid))
          \<and> sales st' = replaceFirst (s\<lparr>paymentStatus := ''cancelado''\<rparr>) (sales st)"
proof -
  from found have mem: "s \<in> set (sales st)" and sid: "s_id s = saleId"
    using find_id [of saleId "sales st" s] by (simp_all add: findById_def)
  from valid have stocks: "\<forall>pid pr. products (working (startTransaction st)) pid = Some pr \<longrightarrow> validProduct pr"
    by (auto simp: schemaValid_def startTransaction_def)
  from valid mem have vs: "validSale s" by (auto simp: schemaValid_def list_all_iff)
  have qs: "\<forall>l\<in>set (items s). js_le (Number 0) (si_quantity l)"
  proof
    fix l assume "l \<in> set (items s)"
    with vs have "js_le (Number 1) (si_quantity l)"
      by (auto simp: validSale_def validItem_def list_all_iff)
    then show "js_le (Number 0) (si_quantity l)"
      by (cases "si_quantity l") (auto simp: js_le_def)
  qed
  from vs have vs': "validSale (s\<lparr>paymentStatus := ''cancelado''\<rparr>)"
    by (simp add: validSale_def paymentStatuses_def)
  from restoreStock_ok [OF stocks qs] obtain ses' where
    run: "restoreStock (startTransaction st) (items s) = Inr ses'"
    and led: "sales (working ses') = sales st"
    and stock: "\<forall>pid. products (working ses') pid =
                 map_option (\<lambda>pr. pr\<lparr>p_stock := restored (p_stock pr) (items s) pid\<rparr>) (products st pid)"
    by (auto simp: startTransaction_def)
  have "cancelSale saleId st =
          (Inr (s\<lparr>paymentStatus := ''cancelado''\<rparr>),
           replaceSale (working ses') (s\<lparr>paymentStatus := ''cancelado''\<rparr>))"
    using found live run vs'
    by (simp add: cancelSale_def Let_def commitTransaction_def startTransaction_def)
  with stock led show ?thesis
    by (simp add: replaceSale_def)
qed

text \<open>
  C4. Cancelling a sale that is in the ledger and not cancelled succeeds when the
  documents of the store satisfy their schemas: every product that still exists keeps
  its fields but the stock, to which the quantities the sale holds of it have been added
  in order, each sum rounded to a double; that is the stock plus the sum of those
  quantities as real numbers when the stock and the quantities are whole numbers and the
  result is at most \<open>2\<close> to the power 53. A product that is gone stays gone and stops
  nothing, and the sale is stored with the status cancelled. Cancelling it again is
  refused as an invalid state and changes nothing, and so is any cancellation of a
  cancelled sale; cancelling an id that is not in the ledger is refused as not found.
\<close>

theorem cancelSale_restores_stock:
  "(findById st saleId = None \<longrightarrow>
      cancelSale saleId st = (Inl SaleNotFound, st) \<and> kind SaleNotFound = NotFound)
   \<and> (\<forall>s. findById st saleId = Some s \<and> paymentStatus s = ''cancelado'' \<longrightarrow>
      cancelSale saleId st = (Inl AlreadyCancelled, st) \<and> kind AlreadyCancelled = InvalidState)
   \<and> (\<forall>s. schemaValid st \<and> findById st saleId = Some s \<and> paymentStatus s \<noteq> ''cancelado'' \<longrightarrow>
      (\<exists>st'. cancelSale saleId st = (Inr (s\<lparr>paymentStatus := ''cancelado''\<rparr>), st')
          \<and> (\<forall>pid. products st' pid =
                map_option (\<lambda>pr. pr\<lparr>p_stock := restored (p_stock pr) (items s) pid\<rparr>) (products st pid))
          \<and> (\<forall>pid pr. products st pid = Some pr \<and> wholeNumber (p_stock pr)
                \<and> (\<forall>l\<in>set (items s). wholeNumber (si_quantity l))
                \<and> realOf (p_stock pr) + returned (items s) pid \<le> 2 ^ 53
                \<longrightarrow> restored (p_stock pr) (items s) pid
                      = Number (realOf (p_stock pr) + returned (items s) pid))
          \<and> sales st' = replaceFirst (s\<lparr>paymentStatus := ''cancelado''\<rparr>) (sales st)
          \<and> findById st' saleId = Some (s\<lparr>paymentStatus := ''cancelado''\<rparr>)
          \<and> cancelSale saleId st' = (Inl AlreadyCancelled, st')))"
proof (intro conjI allI impI)
  assume "findById st saleId = None"
  then show "cancelSale saleId st = (Inl SaleNotFound, st)"
    by (simp add: cancelSale_def Let_def startTransaction_def abortTransaction_def)
next
  show "kind SaleNotFound = NotFound" by simp
next
  fix s assume "findById st saleId = Some s \<and> paymentStatus s = ''cancelado''"
  then show "cancelSale saleId st = (Inl AlreadyCancelled, st)"
    by (simp add: cancelSale_def Let_def startTransaction_def abortTransaction_def)
next
  fix s show "kind AlreadyCancelled = InvalidState" by simp
next
  fix s assume a: "schemaValid st \<and> findById st saleId = Some s \<and> paymentStatus s \<noteq> ''cancelado''"
  then have found: "findById st saleId = Some s" and valid: "schemaValid st" by simp_all
  from a cancelSale_ok [of st saleId s] obtain st' where
    run: "cancelSale saleId st = (Inr (s\<lparr>paymentStatus := ''cancelado''\<rparr>), st')"
    and stock: "\<forall>pid. products st' pid =
                map_option (\<lambda>pr. pr\<lparr>p_stock := restored (p_stock pr) (items s) pid\<rparr>) (products st pid)"
    and led: "sales st' = replaceFirst (s\<lparr>paymentStatus := ''cancelado''\<rparr>) (sales st)"
    by blast
  from found have sid: "s_id s = saleId" and mem: "s \<in> set (sales st)"
    using find_id [of saleId "sales st" s] by (simp_all add: findById_def)
  have again: "findById st' saleId = Some (s\<lparr>paymentStatus := ''cancelado''\<rparr>)"
    using found sid led find_replaceFirst [of saleId "sales st" s "s\<lparr>paymentStatus := ''cancelado''\<rparr>"]
    by (simp add: findById_def)
  then have twice: "cancelSale saleId st' = (Inl AlreadyCancelled, st')"
    by (simp add: cancelSale_def Let_def startTransaction_def abortTransaction_def)
  have exact: "restored (p_stock pr) (items s) pid
                      = Number (realOf (p_stock pr) + returned (items s) pid)"
    if h: "products st pid = Some pr \<and> wholeNumber (p_stock pr)
                \<and> (\<forall>l\<in>set (items s). wholeNumber (si_quantity l))
                \<and> realOf (p_stock pr) + returned (items s) pid \<le> 2 ^ 53" for pid pr
  proof -
    from valid h have "js_le (Number 0) (p_stock pr)"
      by (auto simp: schemaValid_def validProduct_def)
    moreover have "\<forall>l\<in>set (items s). wholeNumber (si_quantity l) \<and> js_le (Number 0) (si_quantity l)"
    proof
      fix l assume l: "l \<in> set (items s)"
      with valid mem have "js_le (Number 1) (si_quantity l)"
        by (auto simp: schemaValid_def validSale_def validItem_def list_all_iff)
      then have "js_le (Number 0) (si_quantity l)"
        by (cases "si_quantity l") (auto simp: js_le_def)
      with h l show "wholeNumber (si_quantity l) \<and> js_le (Number 0) (si_quantity l)" by simp
    qed
    ultimately show ?thesis using h by (intro restored_whole) simp_all
  qed
  from run stock led again twice exact
  show "\<exists>st'. cancelSale saleId st = (Inr (s\<lparr>paymentStatus := ''cancelado''\<rparr>), st')
          \<and> (\<forall>pid. products st' pid =
                map_option (\<lambda>pr. pr\<lparr>p_stock := restored (p_stock pr) (items s) pid\<rparr>) (products st pid))
          \<and> (\<forall>pid pr. products st pid = Some pr \<and> wholeNumber (p_stock pr)
                \<and> (\<forall>l\<in>set (items s). wholeNumber (si_quantity l))
                \<and> realOf (p_stock pr) + returned (items s) pid \<le> 2 ^ 53
                \<longrightarrow> restored (p_stock pr) (items s) pid
                      = Number (realOf (p_stock pr) + returned (items s) pid))
          \<and> sales st' = replaceFirst (s\<lparr>paymentStatus := ''cancelado''\<rparr>) (sales st)
          \<and> findById st' saleId = Some (s\<lparr>paymentStatus := ''cancelado''\<rparr>)
          \<and> cancelSale saleId st' = (Inl AlreadyCancelled, st')"
    by blast
qed

theorem cancelSale_restores_stock_witness:
  "schemaValid exDbSold \<and> findById exDbSold 100 = Some exSale
   \<and> paymentStatus exSale \<noteq> ''cancelado''
   \<and> fst (cancelSale 100 exDbSold) = Inr exCancelled
   \<and> map_option p_stock (products exDbSold 1) = Some (Number 8)
   \<and> returned (items exSale) 1 = 2
   \<and> map_option p_stock (products (snd (cancelSale 100 exDbSold)) 1) = Some (Number 10)
   \<and> map_option p_stock (products exDbSold 2) = Some (Number 4)
   \<and> returned (items exSale) 2 = 1
   \<and> map_option p_stock (products (snd (cancelSale 100 exDbSold)) 2) = Some (Number 5)
   \<and> sales (snd (cancelSale 100 exDbSold)) = [exCancelled]
   \<and> cancelSale 100 (snd (cancelSale 100 exDbSold))
        = (Inl AlreadyCancelled, snd (cancelSale 100 exDbSold))
   \<and> findById exDb 5 = None
   \<and> cancelSale 5 exDb = (Inl SaleNotFound, exDb)"
proof -
  have valid: "schemaValid exDbSold" by (rule exDbSold_valid)
  have found: "findById exDbSold 100 = Some exSale"
    by (simp add: findById_def example_defs)
  have live: "paymentStatus exSale \<noteq> ''cancelado''" by (simp add: example_defs)
  have absent: "findById exDb 5 = None" by (simp add: findById_def example_defs)
  from cancelSale_restores_stock [of exDbSold 100] valid found live
  obtain st' where
    run: "cancelSale 100 exDbSold = (Inr (exSale\<lparr>paymentStatus := ''cancelado''\<rparr>), st')"
    and stock: "\<forall>pid. products st' pid =
                map_option (\<lambda>pr. pr\<lparr>p_stock := restored (p_stock pr) (items exSale) pid\<rparr>)
                  (products exDbSold pid)"
    and exact: "\<forall>pid pr. products exDbSold pid = Some pr \<and> wholeNumber (p_stock pr)
                \<and> (\<forall>l\<in>set (items exSale). wholeNumber (si_quantity l))
                \<and> realOf (p_stock pr) + returned (items exSale) pid \<le> 2 ^ 53
                \<longrightarrow> restored (p_stock pr) (items exSale) pid
                      = Number (realOf (p_stock pr) + returned (items exSale) pid)"
    and led: "sales st' = replaceFirst (exSale\<lparr>paymentStatus := ''cancelado''\<rparr>) (sales exDbSold)"
    and again: "cancelSale 100 st' = (Inl AlreadyCancelled, st')"
    by blast
  from cancelSale_restores_stock [of exDb 5] absent
  have none: "cancelSale 5 exDb = (Inl SaleNotFound, exDb)" by blast
  have whole: "\<forall>l\<in>set (items exSale). wholeNumber (si_quantity l)"
    by (simp add: exSale_def wholeNumber_def)
  have ret: "returned (items exSale) 1 = 2" "returned (items exSale) 2 = 1"
    by (simp_all add: returned_def exSale_def)
  have a: "products exDbSold 1 = Some (exA\<lparr>p_stock := Number 8\<rparr>)"
    and b: "products exDbSold 2 = Some (exB\<lparr>p_stock := Number 4\<rparr>)"
    by (simp_all add: exDbSold_def)
  from exact [rule_format, of 1 "exA\<lparr>p_stock := Number 8\<rparr>"] a whole ret(1)
  have "restored (Number 8) (items exSale) 1 = Number 10"
    by (simp add: wholeNumber_def)
  with stock a have one: "map_option p_stock (products st' 1) = Some (Number 10)"
    by simp
  from exact [rule_format, of 2 "exB\<lparr>p_stock := Number 4\<rparr>"] b whole ret(2)
  have "restored (Number 4) (items exSale) 2 = Number 5"
    by (simp add: wholeNumber_def)
  with stock b have two: "map_option p_stock (products st' 2) = Some (Number 5)"
    by simp
  have ledger: "sales st' = [exCancelled]"
    using led by (simp add: example_defs)
  from valid found live run one two ledger again absent none ret show ?thesis
    by (simp add: example_defs)
qed

section \<open>Changing the payment status and the stock\<close>

lemma updatePaymentStatus_products:
  "updatePaymentStatus saleId newStatus newMethod st = (r, st') \<Longrightarrow> products st' = products st"
  by (auto simp: updatePaymentStatus_def Let_def replaceSale_def
      split: option.splits if_splits)

lemma updatePaymentStatus_error_unchanged:
  "updatePaymentStatus saleId newStatus newMethod st = (Inl err, st') \<Longrightarrow> st' = st"
  by (auto simp: updatePaymentStatus_def Let_def split: option.splits if_splits)

lemma updatePaymentStatus_save:
  assumes "newStatus = Some v" and "v \<noteq> []" and "findById st saleId = Some s"
    and "paymentStatus s \<noteq> ''cancelado''"
  shows "updatePaymentStatus saleId newStatus newMethod st =
           (let s' = s\<lparr>paymentStatus := v,
                       paymentMethod := (case newMethod of
                                           None \<Rightarrow> paymentMethod s
                                         | Some m \<Rightarrow> if m = [] then paymentMethod s else m)\<rparr>
            in if validSale s' then (Inr s', replaceSale st s') else (Inl ServerError, st))"
  using assms by (auto simp: updatePaymentStatus_def Let_def split: option.splits)

text \<open>
  C6, as the claim words it, fails: the supplied value is stored only when the schema
  accepts the sale with it. A status that is not one of the three of the enumeration is
  refused when the sale is saved, and the reply is the server failure of the handler
  with the sale as it was; the same happens with one of the three when the stored sale
  does not satisfy its schema, here an item with the quantity 0.
\<close>

theorem updatePaymentStatus_supplied_value_counterexample:
  "findById exDbSold 100 = Some exSale \<and> paymentStatus exSale = ''pendiente''
   \<and> updatePaymentStatus 100 (Some ''pagado'') None exDbSold = (Inl ServerError, exDbSold)
   \<and> updatePaymentStatus 100 (Some ''completado'') (Some ''cheque'') exDbSold
        = (Inl ServerError, exDbSold)
   \<and> findById exLooseDb 100 = Some exLoose \<and> paymentStatus exLoose = ''pendiente''
   \<and> map si_quantity (items exLoose) = [Number 0, Number 1]
   \<and> updatePaymentStatus 100 (Some ''completado'') None exLooseDb = (Inl ServerError, exLooseDb)
   \<and> httpStatus ServerError = 500"
  by (simp add: updatePaymentStatus_def findById_def Let_def valid_defs example_defs)

text \<open>
  C6, amended. For a sale that is in the ledger, satisfies its schema and is not
  cancelled, a new status of the enumeration (and a new method of the enumeration, when
  one is given) is stored in the sale, and the products are left as they were, also when
  the new status is cancelled. A status or a method outside its enumeration, or a stored
  sale whose number, items or amounts the schema refuses, makes the save fail: the reply
  is a server failure and the store is unchanged. A cancelled sale is refused as an invalid
  state, a missing status as a validation error, an id that is not in the ledger as not
  found, and none of the three changes the store.
\<close>

theorem updatePaymentStatus_effects:
  "(\<not> truthy newStatus \<longrightarrow>
      updatePaymentStatus saleId newStatus newMethod st = (Inl PaymentStatusRequired, st)
      \<and> kind PaymentStatusRequired = ValidationError)
   \<and> (truthy newStatus \<and> findById st saleId = None \<longrightarrow>
      updatePaymentStatus saleId newStatus newMethod st = (Inl SaleNotFound, st)
      \<and> kind SaleNotFound = NotFound)
   \<and> (\<forall>s. truthy newStatus \<and> findById st saleId = Some s \<and> paymentStatus s = ''cancelado'' \<longrightarrow>
      updatePaymentStatus saleId newStatus newMethod st = (Inl CancelledSaleImmutable, st)
      \<and> kind CancelledSaleImmutable = InvalidState)
   \<and> (\<forall>s v. newStatus = Some v \<and> v \<in> set paymentStatuses
          \<and> (\<forall>m. newMethod = Some m \<longrightarrow> m = [] \<or> m \<in> set paymentMethods)
          \<and> findById st saleId = Some s \<and> validSale s \<and> paymentStatus s \<noteq> ''cancelado'' \<longrightarrow>
      (\<exists>s' st'. updatePaymentStatus saleId newStatus newMethod st = (Inr s', st')
          \<and> s' = s\<lparr>paymentStatus := v,
                    paymentMethod := (case newMethod of
                                        None \<Rightarrow> paymentMethod s
                                      | Some m \<Rightarrow> if m = [] then paymentMethod s else m)\<rparr>
          \<and> products st' = products st
          \<and> sales st' = replaceFirst s' (sales st)
          \<and> findById st' saleId = Some s'))
   \<and> (\<forall>s v. newStatus = Some v \<and> v \<noteq> []
          \<and> findById st saleId = Some s \<and> paymentStatus s \<noteq> ''cancelado''
          \<and> (v \<notin> set paymentStatuses
               \<or> (\<exists>m. newMethod = Some m \<and> m \<noteq> [] \<and> m \<notin> set paymentMethods)
               \<or> saleNumber s = [] \<or> \<not> list_all validItem (items s)
               \<or> totalAmount s = NaN \<or> tax s = NaN) \<longrightarrow>
      updatePaymentStatus saleId newStatus newMethod st = (Inl ServerError, st)
      \<and> kind ServerError = StorageFailure)"
proof (intro conjI allI impI)
  assume "\<not> truthy newStatus"
  then show "updatePaymentStatus saleId newStatus newMethod st = (Inl PaymentStatusRequired, st)"
    by (auto simp: updatePaymentStatus_def truthy_def split: option.splits)
next
  show "kind PaymentStatusRequired = ValidationError" by simp
next
  assume "truthy newStatus \<and> findById st saleId = None"
  then show "updatePaymentStatus saleId newStatus newMethod st = (Inl SaleNotFound, st)"
    by (auto simp: updatePaymentStatus_def truthy_def split: option.splits)
next
  show "kind SaleNotFound = NotFound" by simp
next
  fix s assume "truthy newStatus \<and> findById st saleId = Some s \<and> paymentStatus s = ''cancelado''"
  then show "updatePaymentStatus saleId newStatus newMethod st = (Inl CancelledSaleImmutable, st)"
    by (auto simp: updatePaymentStatus_def truthy_def split: option.splits)
next
  fix s :: sale show "kind CancelledSaleImmutable = InvalidState" by simp
next
  fix s v
  assume a: "newStatus = Some v \<and> v \<in> set paymentStatuses
          \<and> (\<forall>m. newMethod = Some m \<longrightarrow> m = [] \<or> m \<in> set paymentMethods)
          \<and> findById st saleId = Some s \<and> validSale s \<and> paymentStatus s \<noteq> ''cancelado''"
  define s' where "s' = s\<lparr>paymentStatus := v,
                    paymentMethod := (case newMethod of
                                        None \<Rightarrow> paymentMethod s
                                      | Some m \<Rightarrow> if m = [] then paymentMethod s else m)\<rparr>"
  from a have v: "v \<noteq> []" by (auto simp: paymentStatuses_def)
  from a have found: "findById st saleId = Some s" by simp
  then have sid: "s_id s = saleId"
    using find_id [of saleId "sales st" s] by (simp add: findById_def)
  from a have ok: "validSale s'"
    by (auto simp: validSale_def s'_def split: option.splits)
  from a v have "updatePaymentStatus saleId newStatus newMethod st =
      (if validSale s' then (Inr s', replaceSale st s') else (Inl ServerError, st))"
    using updatePaymentStatus_save [of newStatus v st saleId s newMethod]
    by (simp add: Let_def s'_def)
  with ok have run: "updatePaymentStatus saleId newStatus newMethod st = (Inr s', replaceSale st s')"
    by simp
  have again: "findById (replaceSale st s') saleId = Some s'"
    using found sid find_replaceFirst [of saleId "sales st" s s']
    by (simp add: findById_def replaceSale_def s'_def)
  from run again
  show "\<exists>s' st'. updatePaymentStatus saleId newStatus newMethod st = (Inr s', st')
          \<and> s' = s\<lparr>paymentStatus := v,
                    paymentMethod := (case newMethod of
                                        None \<Rightarrow> paymentMethod s
                                      | Some m \<Rightarrow> if m = [] then paymentMethod s else m)\<rparr>
          \<and> products st' = products st
          \<and> sales st' = replaceFirst s' (sales st)
          \<and> findById st' saleId = Some s'"
    unfolding s'_def [symmetric] by (simp add: replaceSale_def)
next
  fix s v
  assume a: "newStatus = Some v \<and> v \<noteq> []
          \<and> findById st saleId = Some s \<and> paymentStatus s \<noteq> ''cancelado''
          \<and> (v \<notin> set paymentStatuses
               \<or> (\<exists>m. newMethod = Some m \<and> m \<noteq> [] \<and> m \<notin> set paymentMethods)
               \<or> saleNumber s = [] \<or> \<not> list_all validItem (items s)
               \<or> totalAmount s = NaN \<or> tax s = NaN)"
  define s' where "s' = s\<lparr>paymentStatus := v,
                    paymentMethod := (case newMethod of
                                        None \<Rightarrow> paymentMethod s
                                      | Some m \<Rightarrow> if m = [] then paymentMethod s else m)\<rparr>"
  from a have bad: "\<not> validSale s'"
    by (auto simp: validSale_def s'_def)
  from a have "updatePaymentStatus saleId newStatus newMethod st =
      (if validSale s' then (Inr s', replaceSale st s') else (Inl ServerError, st))"
    using updatePaymentStatus_save [of newStatus v st saleId s newMethod]
    by (simp add: Let_def s'_def)
  with bad show "updatePaymentStatus saleId newStatus newMethod st = (Inl ServerError, st)"
    by simp
next
  fix s :: sale show "kind ServerError = StorageFailure" by simp
qed

theorem updatePaymentStatus_effects_witness:
  "findById exDbSold 100 = Some exSale \<and> validSale exSale \<and> paymentStatus exSale \<noteq> ''cancelado''
   \<and> ''cancelado'' \<in> set paymentStatuses
   \<and> updatePaymentStatus 100 (Some ''cancelado'') None exDbSold
        = (Inr exCancelled, exDbSold\<lparr>sales := [exCancelled]\<rparr>)
   \<and> products (exDbSold\<lparr>sales := [exCancelled]\<rparr>) = products exDbSold
   \<and> map_option p_stock (products exDbSold 1) = Some (Number 8)
   \<and> updatePaymentStatus 100 (Some ''completado'') None (exDbSold\<lparr>sales := [exCancelled]\<rparr>)
        = (Inl CancelledSaleImmutable, exDbSold\<lparr>sales := [exCancelled]\<rparr>)
   \<and> updatePaymentStatus 100 None None exDbSold = (Inl PaymentStatusRequired, exDbSold)
   \<and> updatePaymentStatus 5 (Some ''completado'') None exDbSold = (Inl SaleNotFound, exDbSold)
   \<and> ''tarjeta_credito'' \<in> set paymentMethods
   \<and> fst (updatePaymentStatus 100 (Some ''completado'') (Some ''tarjeta_credito'') exDbSold)
        = Inr (exSale\<lparr>paymentStatus := ''completado'', paymentMethod := ''tarjeta_credito''\<rparr>)
   \<and> ''pagado'' \<notin> set paymentStatuses
   \<and> updatePaymentStatus 100 (Some ''pagado'') None exDbSold = (Inl ServerError, exDbSold)"
proof -
  have found: "findById exDbSold 100 = Some exSale"
    by (simp add: findById_def example_defs)
  have valid: "validSale exSale" by (simp add: valid_defs example_defs)
  have live: "paymentStatus exSale \<noteq> ''cancelado''" by (simp add: example_defs)
  have enum: "''cancelado'' \<in> set paymentStatuses" by (simp add: paymentStatuses_def)
  from updatePaymentStatus_effects [of "Some ''cancelado''" 100 None exDbSold] found valid live enum
  obtain s' st' where
    run: "updatePaymentStatus 100 (Some ''cancelado'') None exDbSold = (Inr s', st')"
    and s': "s' = exSale\<lparr>paymentStatus := ''cancelado'', paymentMethod := paymentMethod exSale\<rparr>"
    and same: "products st' = products exDbSold"
    and led: "sales st' = replaceFirst s' (sales exDbSold)"
    by auto
  have s'': "s' = exCancelled" using s' by (simp add: example_defs)
  have st': "st' = exDbSold\<lparr>sales := [exCancelled]\<rparr>"
    using same led s'' by (simp add: example_defs)
  have found2: "findById (exDbSold\<lparr>sales := [exCancelled]\<rparr>) 100 = Some exCancelled"
    by (simp add: findById_def example_defs)
  from updatePaymentStatus_effects
         [of "Some ''completado''" 100 None "exDbSold\<lparr>sales := [exCancelled]\<rparr>"] found2
  have frozen: "updatePaymentStatus 100 (Some ''completado'') None (exDbSold\<lparr>sales := [exCancelled]\<rparr>)
        = (Inl CancelledSaleImmutable, exDbSold\<lparr>sales := [exCancelled]\<rparr>)"
    by (simp add: truthy_def exCancelled_def)
  from updatePaymentStatus_effects [of None 100 None exDbSold]
  have missing: "updatePaymentStatus 100 None None exDbSold = (Inl PaymentStatusRequired, exDbSold)"
    by (simp add: truthy_def)
  have absent: "findById exDbSold 5 = None" by (simp add: findById_def example_defs)
  from updatePaymentStatus_effects [of "Some ''completado''" 5 None exDbSold] absent
  have notfound: "updatePaymentStatus 5 (Some ''completado'') None exDbSold = (Inl SaleNotFound, exDbSold)"
    by (simp add: truthy_def)
  have enum2: "''completado'' \<in> set paymentStatuses" "''tarjeta_credito'' \<in> set paymentMethods"
    by (simp_all add: paymentStatuses_def paymentMethods_def)
  from updatePaymentStatus_effects [of "Some ''completado''" 100 "Some ''tarjeta_credito''" exDbSold]
    found valid live enum2
  have changed: "fst (updatePaymentStatus 100 (Some ''completado'') (Some ''tarjeta_credito'') exDbSold)
        = Inr (exSale\<lparr>paymentStatus := ''completado'', paymentMethod := ''tarjeta_credito''\<rparr>)"
    by auto
  have outside: "''pagado'' \<notin> set paymentStatuses" by (simp add: paymentStatuses_def)
  from updatePaymentStatus_effects [of "Some ''pagado''" 100 None exDbSold] found live outside
  have refused: "updatePaymentStatus 100 (Some ''pagado'') None exDbSold = (Inl ServerError, exDbSold)"
    by simp
  from found valid live enum run s'' st' frozen missing notfound enum2 changed outside refused
  show ?thesis
    by (simp add: example_defs)
qed

section \<open>The scope of the listing and of the statistics\<close>

lemma salesFilters_seller:
  "usr = Some u \<Longrightarrow> role u \<noteq> ''admin'' \<Longrightarrow>
     salesFilters usr (q\<lparr>q_sellerId := a\<rparr>) = salesFilters usr (q\<lparr>q_sellerId := b\<rparr>)
     \<and> f_seller (salesFilters usr q) = Some (u_id u)"
  by (simp add: salesFilters_def Let_def)

lemma statsFilters_seller:
  "statsFilters usr (q\<lparr>q_sellerId := a\<rparr>) = statsFilters usr q"
  "usr = Some u \<Longrightarrow> role u \<noteq> ''admin'' \<Longrightarrow> f_seller (statsFilters usr q) = Some (u_id u)"
  by (simp_all add: statsFilters_def Let_def split: option.splits)

lemma matches_seller:
  "matches (f\<lparr>f_seller := Some i\<rparr>) s \<longleftrightarrow> seller s = i \<and> matches (f\<lparr>f_seller := None\<rparr>) s"
  by (auto simp: matches_def)

lemma salesFilters_own:
  assumes "role u \<noteq> ''admin''"
  shows "salesFilters (Some u) q
           = (salesFilters None (q\<lparr>q_sellerId := None\<rparr>))\<lparr>f_seller := Some (u_id u)\<rparr>"
    and "(salesFilters None (q\<lparr>q_sellerId := None\<rparr>))\<lparr>f_seller := None\<rparr>
           = salesFilters None (q\<lparr>q_sellerId := None\<rparr>)"
    and "castable (salesFilters (Some u) q) = (q_startDate q \<noteq> BadDate \<and> q_endDate q \<noteq> BadDate)"
  using assms by (simp_all add: salesFilters_def Let_def noFilters_def castable_def)

lemma statsFilters_own:
  assumes "role u \<noteq> ''admin''"
  shows "statsFilters (Some u) q = (statsFilters None q)\<lparr>f_seller := Some (u_id u)\<rparr>"
    and "(statsFilters None q)\<lparr>f_seller := None\<rparr> = statsFilters None q"
    and "castable (statsFilters (Some u) q) = (q_startDate q \<noteq> BadDate \<and> q_endDate q \<noteq> BadDate)"
  using assms by (simp_all add: statsFilters_def Let_def noFilters_def castable_def)

lemma statsFilters_status: "f_paymentStatus (statsFilters usr q) = Some (Ne ''cancelado'')"
  by (simp add: statsFilters_def Let_def noFilters_def split: option.splits)

lemma matchStage_seller: "f_seller f = Some i \<Longrightarrow> filter (matchStage f) ss = []"
  by (simp add: matchStage_def)

lemma stages_seller:
  assumes "f_seller f = Some i"
  shows "paymentMethodStats f ss = []" and "paymentStatusStats f ss = []"
    and "topProductStats f ss = []" and "salesByDayStats f ss = []"
  using assms
  by (simp_all add: paymentMethodStats_def paymentStatusStats_def topProductStats_def
      salesByDayStats_def matchStage_seller group_def descending_def)

text \<open>
  C9. For a principal whose role is not admin, the seller of the effective filter is the
  principal's own id, in the listing and in the statistics, whatever seller the query
  names: two queries that differ only in that parameter build the same filter and get the
  same reply. The listing is made of the principal's own sales that satisfy the other
  parameters of the query, the newest first. In the statistics, the number of sales
  counts the principal's own sales that are not cancelled, in the range of dates of the
  query; the aggregation stages receive the id of the principal uncast, so for such a
  principal they match no sale: the total is 0 and the four breakdowns are empty.
\<close>

theorem seller_scope_of_non_admin:
  assumes usr: "usr = Some u" and role: "role u \<noteq> ''admin''"
  shows "f_seller (salesFilters usr q) = Some (u_id u)
    \<and> f_seller (statsFilters usr q) = Some (u_id u)
    \<and> salesFilters usr (q\<lparr>q_sellerId := a\<rparr>) = salesFilters usr (q\<lparr>q_sellerId := b\<rparr>)
    \<and> statsFilters usr (q\<lparr>q_sellerId := a\<rparr>) = statsFilters usr (q\<lparr>q_sellerId := b\<rparr>)
    \<and> getAllSales usr (q\<lparr>q_sellerId := a\<rparr>) st = getAllSales usr (q\<lparr>q_sellerId := b\<rparr>) st
    \<and> getSalesStats usr (q\<lparr>q_sellerId := a\<rparr>) st = getSalesStats usr (q\<lparr>q_sellerId := b\<rparr>) st
    \<and> getAllSales usr q st =
        (if q_startDate q = BadDate \<or> q_endDate q = BadDate then Inl ServerError
         else Inr (rev (sort_key (\<lambda>s. instant (createdAt s))
                (filter (\<lambda>s. seller s = u_id u
                            \<and> matches (salesFilters None (q\<lparr>q_sellerId := None\<rparr>)) s)
                   (sales st)))))
    \<and> getSalesStats usr q st =
        (if q_startDate q = BadDate \<or> q_endDate q = BadDate then Inl ServerError
         else Inr \<lparr>totalSales =
                     length (filter (\<lambda>s. seller s = u_id u \<and> paymentStatus s \<noteq> ''cancelado''
                                        \<and> matches (statsFilters None q) s) (sales st)),
                   st_totalAmount = Number 0, st_paymentMethods = [], st_paymentStatus = [],
                   topProducts = [], salesByDay = []\<rparr>)"
proof -
  note sf = salesFilters_seller [OF usr role]
  note so = salesFilters_own [OF role, of q]
  note to = statsFilters_own [OF role, of q]
  have same: "salesFilters usr (q\<lparr>q_sellerId := a\<rparr>) = salesFilters usr (q\<lparr>q_sellerId := b\<rparr>)"
    using sf [where q = q and a = a and b = b] by simp
  have own: "f_seller (salesFilters usr q) = Some (u_id u)"
    using sf [where q = q and a = a and b = b] by simp
  have same': "statsFilters usr (q\<lparr>q_sellerId := a\<rparr>) = statsFilters usr (q\<lparr>q_sellerId := b\<rparr>)"
    by (simp add: statsFilters_seller(1))
  have own': "f_seller (statsFilters usr q) = Some (u_id u)"
    by (rule statsFilters_seller(2) [OF usr role])
  have all: "getAllSales usr (q\<lparr>q_sellerId := a\<rparr>) st = getAllSales usr (q\<lparr>q_sellerId := b\<rparr>) st"
    by (simp add: getAllSales_def same)
  have stats: "getSalesStats usr (q\<lparr>q_sellerId := a\<rparr>) st = getSalesStats usr (q\<lparr>q_sellerId := b\<rparr>) st"
    by (simp add: getSalesStats_def same')
  have m: "matches (salesFilters usr q) s
             \<longleftrightarrow> seller s = u_id u \<and> matches (salesFilters None (q\<lparr>q_sellerId := None\<rparr>)) s" for s
    using matches_seller [where f = "salesFilters None (q\<lparr>q_sellerId := None\<rparr>)" and i = "u_id u" and s = s]
    by (simp only: usr so(1) so(2))
  have m': "matches (statsFilters usr q) s
             \<longleftrightarrow> seller s = u_id u \<and> paymentStatus s \<noteq> ''cancelado''
                  \<and> matches (statsFilters None q) s" for s
  proof -
    have "matches (statsFilters usr q) s \<longleftrightarrow> seller s = u_id u \<and> matches (statsFilters None q) s"
      using matches_seller [where f = "statsFilters None q" and i = "u_id u" and s = s]
      by (simp only: usr to(1) to(2))
    moreover have "matches (statsFilters None q) s \<Longrightarrow> paymentStatus s \<noteq> ''cancelado''"
      using statsFilters_status [of None q] by (simp add: matches_def)
    ultimately show ?thesis by blast
  qed
  have listing: "getAllSales usr q st =
        (if q_startDate q = BadDate \<or> q_endDate q = BadDate then Inl ServerError
         else Inr (rev (sort_key (\<lambda>s. instant (createdAt s))
                (filter (\<lambda>s. seller s = u_id u
                            \<and> matches (salesFilters None (q\<lparr>q_sellerId := None\<rparr>)) s)
                   (sales st)))))"
  proof -
    have c: "castable (salesFilters usr q) = (q_startDate q \<noteq> BadDate \<and> q_endDate q \<noteq> BadDate)"
      by (simp only: usr so(3))
    have f: "filter (matches (salesFilters usr q)) (sales st)
               = filter (\<lambda>s. seller s = u_id u
                            \<and> matches (salesFilters None (q\<lparr>q_sellerId := None\<rparr>)) s) (sales st)"
      by (rule filter_cong) (simp_all add: m)
    show ?thesis by (auto simp: getAllSales_def Let_def c f)
  qed
  have numbers: "getSalesStats usr q st =
        (if q_startDate q = BadDate \<or> q_endDate q = BadDate then Inl ServerError
         else Inr \<lparr>totalSales =
                     length (filter (\<lambda>s. seller s = u_id u \<and> paymentStatus s \<noteq> ''cancelado''
                                        \<and> matches (statsFilters None q) s) (sales st)),
                   st_totalAmount = Number 0, st_paymentMethods = [], st_paymentStatus = [],
                   topProducts = [], salesByDay = []\<rparr>)"
  proof -
    have c: "castable (statsFilters usr q) = (q_startDate q \<noteq> BadDate \<and> q_endDate q \<noteq> BadDate)"
      by (simp only: usr to(3))
    have f: "filter (matches (statsFilters usr q)) (sales st)
               = filter (\<lambda>s. seller s = u_id u \<and> paymentStatus s \<noteq> ''cancelado''
                                        \<and> matches (statsFilters None q) s) (sales st)"
      by (rule filter_cong) (simp_all add: m')
    show ?thesis
      by (auto simp: getSalesStats_def Let_def c f stages_seller [OF own'] matchStage_seller [OF own'])
  qed
  from same own same' own' all stats listing numbers show ?thesis by simp
qed

theorem seller_scope_of_non_admin_witness:
  "role exSeller8 \<noteq> ''admin''
   \<and> map seller (sales exStatsDb) = [7, 8] \<and> u_id exSeller8 = 8
   \<and> getAllSales (Some exSeller8) (exQuery\<lparr>q_sellerId := Some 7\<rparr>) exStatsDb = Inr [exCompleted]
   \<and> getAllSales (Some exSeller8) (exQuery\<lparr>q_sellerId := None\<rparr>) exStatsDb = Inr [exCompleted]
   \<and> seller exCompleted = u_id exSeller8
   \<and> getSalesStats (Some exSeller8) (exQuery\<lparr>q_sellerId := Some 7\<rparr>) exStatsDb
       = getSalesStats (Some exSeller8) (exQuery\<lparr>q_sellerId := None\<rparr>) exStatsDb
   \<and> getSalesStats (Some exSeller8) exQuery exStatsDb
       = Inr \<lparr>totalSales = 1, st_totalAmount = Number 0, st_paymentMethods = [], st_paymentStatus = [],
              topProducts = [], salesByDay = []\<rparr>"
proof -
  have role: "role exSeller8 \<noteq> ''admin''" by (simp add: exSeller8_def)
  note scope = seller_scope_of_non_admin
    [OF refl role, where q = exQuery and a = "Some 7" and b = None and st = exStatsDb]
  have q: "exQuery\<lparr>q_sellerId := None\<rparr> = exQuery" by (simp add: exQuery_def)
  from scope
  have "getAllSales (Some exSeller8) exQuery exStatsDb =
          Inr (rev (sort_key (\<lambda>s. instant (createdAt s))
                (filter (\<lambda>s. seller s = u_id exSeller8
                            \<and> matches (salesFilters None (exQuery\<lparr>q_sellerId := None\<rparr>)) s)
                   (sales exStatsDb))))"
    by (simp add: exQuery_def)
  then have one: "getAllSales (Some exSeller8) (exQuery\<lparr>q_sellerId := None\<rparr>) exStatsDb = Inr [exCompleted]"
    by (simp add: q salesFilters_def Let_def matches_def noFilters_def truthy_def example_defs)
  with scope
  have two: "getAllSales (Some exSeller8) (exQuery\<lparr>q_sellerId := Some 7\<rparr>) exStatsDb = Inr [exCompleted]"
    by simp
  from scope
  have three: "getSalesStats (Some exSeller8) (exQuery\<lparr>q_sellerId := Some 7\<rparr>) exStatsDb
       = getSalesStats (Some exSeller8) (exQuery\<lparr>q_sellerId := None\<rparr>) exStatsDb"
    by blast
  from scope
  have "getSalesStats (Some exSeller8) exQuery exStatsDb =
          Inr \<lparr>totalSales =
                 length (filter (\<lambda>s. seller s = u_id exSeller8 \<and> paymentStatus s \<noteq> ''cancelado''
                                    \<and> matches (statsFilters None exQuery) s) (sales exStatsDb)),
               st_totalAmount = Number 0, st_paymentMethods = [], st_paymentStatus = [],
               topProducts = [], salesByDay = []\<rparr>"
    by (simp add: exQuery_def)
  then have four: "getSalesStats (Some exSeller8) exQuery exStatsDb
       = Inr \<lparr>totalSales = 1, st_totalAmount = Number 0, st_paymentMethods = [], st_paymentStatus = [],
              topProducts = [], salesByDay = []\<rparr>"
    by (simp add: statsFilters_def Let_def matches_def noFilters_def example_defs)
  from role one two three four show ?thesis by (simp add: example_defs)
qed

section \<open>Cancelled sales in the statistics\<close>

lemma matches_not_cancelled:
  "f_paymentStatus f = Some (Ne c) \<Longrightarrow>
     filter (matches f) (filter (\<lambda>s. paymentStatus s \<noteq> c) ss) = filter (matches f) ss"
  by (induction ss) (auto simp: matches_def)

lemma matchStage_not_cancelled:
  "f_paymentStatus f = Some (Ne c) \<Longrightarrow>
     filter (matchStage f) (filter (\<lambda>s. paymentStatus s \<noteq> c) ss) = filter (matchStage f) ss"
  by (induction ss) (auto simp: matchStage_def matches_def)

lemma group_filter_key:
  "group f (filter (\<lambda>x. f x \<noteq> c) xs) = filter (\<lambda>g. fst g \<noteq> c) (group f xs)"
proof -
  have "map f (filter (\<lambda>x. f x \<noteq> c) xs) = filter (\<lambda>k. k \<noteq> c) (map f xs)"
    by (induction xs) auto
  then have keys: "remdups (map f (filter (\<lambda>x. f x \<noteq> c) xs)) = filter (\<lambda>k. k \<noteq> c) (remdups (map f xs))"
    by (simp only: remdups_filter)
  have inner: "filter (\<lambda>x. f x = k) (filter (\<lambda>x. f x \<noteq> c) xs) = filter (\<lambda>x. f x = k) xs"
    if "k \<noteq> c" for k
    using that by (induction xs) auto
  have "group f (filter (\<lambda>x. f x \<noteq> c) xs)
          = map (\<lambda>k. (k, filter (\<lambda>x. f x = k) (filter (\<lambda>x. f x \<noteq> c) xs)))
              (filter (\<lambda>k. k \<noteq> c) (remdups (map f xs)))"
    by (simp only: group_def keys)
  also have "\<dots> = map (\<lambda>k. (k, filter (\<lambda>x. f x = k) xs)) (filter (\<lambda>k. k \<noteq> c) (remdups (map f xs)))"
    by (rule map_cong) (simp_all del: filter_filter add: inner)
  also have "\<dots> = filter (\<lambda>g. fst g \<noteq> c) (group f xs)"
    by (simp add: group_def filter_map comp_def)
  finally show ?thesis .
qed

lemma paymentStatusStats_not_cancelled:
  "paymentStatusStats f (filter (\<lambda>s. paymentStatus s \<noteq> c) ss)
     = filter (\<lambda>g. g_id g \<noteq> c) (paymentStatusStats f ss)"
proof -
  have swap: "filter (matchStage (f\<lparr>f_paymentStatus := Some Exists\<rparr>)) (filter (\<lambda>s. paymentStatus s \<noteq> c) ss)
          = filter (\<lambda>s. paymentStatus s \<noteq> c) (filter (matchStage (f\<lparr>f_paymentStatus := Some Exists\<rparr>)) ss)"
    by (induction ss) auto
  have keep: "map saleGroup (filter (\<lambda>g. fst g \<noteq> c) gs) = filter (\<lambda>g. g_id g \<noteq> c) (map saleGroup gs)"
    for gs :: "(string \<times> sale list) list"
    by (induction gs) (auto simp: saleGroup_def)
  show ?thesis
    by (simp only: paymentStatusStats_def swap group_filter_key keep)
qed

lemma stats_without_cancelled:
  assumes "f_paymentStatus f = Some (Ne c)"
  shows "paymentMethodStats f (filter (\<lambda>s. paymentStatus s \<noteq> c) ss) = paymentMethodStats f ss"
    and "topProductStats f (filter (\<lambda>s. paymentStatus s \<noteq> c) ss) = topProductStats f ss"
    and "salesByDayStats f (filter (\<lambda>s. paymentStatus s \<noteq> c) ss) = salesByDayStats f ss"
  by (simp_all only: paymentMethodStats_def topProductStats_def salesByDayStats_def
      matchStage_not_cancelled [OF assms])

lemma getSalesStats_without_cancelled:
  "getSalesStats usr q (st\<lparr>sales := filter (\<lambda>s. paymentStatus s \<noteq> ''cancelado'') (sales st)\<rparr>)
     = map_sum id withoutCancelledGroup (getSalesStats usr q st)"
  by (simp del: filter_filter add: getSalesStats_def Let_def withoutCancelledGroup_def
      matches_not_cancelled [OF statsFilters_status]
      matchStage_not_cancelled [OF statsFilters_status]
      stats_without_cancelled [OF statsFilters_status]
      paymentStatusStats_not_cancelled)

text \<open>
  C5, as the claim words it, fails: the stage of the breakdown by payment status replaces
  the condition on the status by the bare existence of the field, so it counts the
  cancelled sales, in a group of their own. Over a ledger with one cancelled and one
  completed sale, the breakdown has a group for the cancelled sale with its total, which
  the statistics of the completed sale alone do not have.
\<close>

theorem getSalesStats_status_breakdown_counterexample:
  "map paymentStatus (sales exStatsDb) = [''cancelado'', ''completado'']
   \<and> map totalAmount (sales exStatsDb) = [Number 3350, Number 900]
   \<and> map_sum id (\<lambda>r. filter (\<lambda>g. g_id g = ''cancelado'') (st_paymentStatus r))
         (getSalesStats None exQuery exStatsDb)
     = Inr [\<lparr>g_id = ''cancelado'', g_count = 1, g_total = Number 3350\<rparr>]
   \<and> map_sum id (\<lambda>r. filter (\<lambda>g. g_id g = ''cancelado'') (st_paymentStatus r))
         (getSalesStats None exQuery (exStatsDb\<lparr>sales := [exCompleted]\<rparr>))
     = Inr []"
  by (simp add: getSalesStats_def statsFilters_def Let_def castable_def matchStage_def matches_def noFilters_def
      paymentStatusStats_def group_def saleGroup_def storeSum_def fl_eval example_defs)

text \<open>
  C5, amended. The number of sales, the sum of the totals, the totals by payment method,
  the top products and the series by day are those of the ledger without its cancelled
  sales: a cancelled sale adds nothing to them. The breakdown by payment status is taken
  over the cancelled sales too: without its group of the cancelled sales it is the
  breakdown of the ledger without them, so a cancelled sale counts in that group only.
\<close>

theorem getSalesStats_ignores_cancelled:
  "map_sum id withoutCancelledGroup (getSalesStats usr q st)
   = getSalesStats usr q (st\<lparr>sales := filter (\<lambda>s. paymentStatus s \<noteq> ''cancelado'') (sales st)\<rparr>)"
  by (rule getSalesStats_without_cancelled [symmetric])

theorem getSalesStats_ignores_cancelled_witness:
  "sales exStatsDb = [exCancelled, exCompleted]
   \<and> paymentStatus exCancelled = ''cancelado'' \<and> paymentStatus exCompleted = ''completado''
   \<and> map_sum id (\<lambda>r. (totalSales r, st_totalAmount r, st_paymentMethods r, topProducts r, salesByDay r))
        (getSalesStats None exQuery exStatsDb)
      = Inr (1, Number 900, [\<lparr>g_id = ''tarjeta_credito'', g_count = 1, g_total = Number 900\<rparr>],
             [\<lparr>productId = 3, productName = ''Cafe'', totalQuantity = Number 1, ps_totalAmount = Number 900\<rparr>],
             [\<lparr>date = ''2024-03-06'', d_count = 1, d_total = Number 900\<rparr>])
   \<and> map_sum id (\<lambda>r. (totalSales r, st_totalAmount r))
        (getSalesStats None exQuery (exStatsDb\<lparr>sales := [exCompleted]\<rparr>)) = Inr (1, Number 900)"
proof -
  have only: "exStatsDb\<lparr>sales := filter (\<lambda>s. paymentStatus s \<noteq> ''cancelado'') (sales exStatsDb)\<rparr>
                = exStatsDb\<lparr>sales := [exCompleted]\<rparr>"
    by (simp add: example_defs)
  have y: "toString 2024 = ''2024''" by code_simp
  have m: "padStart 2 (CHR ''0'') (toString 3) = ''03''" by code_simp
  have d: "padStart 2 (CHR ''0'') (toString 6) = ''06''" by code_simp
  have alone: "getSalesStats None exQuery (exStatsDb\<lparr>sales := [exCompleted]\<rparr>)
     = Inr \<lparr>totalSales = 1, st_totalAmount = Number 900,
            st_paymentMethods = [\<lparr>g_id = ''tarjeta_credito'', g_count = 1, g_total = Number 900\<rparr>],
            st_paymentStatus = [\<lparr>g_id = ''completado'', g_count = 1, g_total = Number 900\<rparr>],
            topProducts = [\<lparr>productId = 3, productName = ''Cafe'', totalQuantity = Number 1,
                            ps_totalAmount = Number 900\<rparr>],
            salesByDay = [\<lparr>date = ''2024-03-06'', d_count = 1, d_total = Number 900\<rparr>]\<rparr>"
    by (simp add: getSalesStats_def statsFilters_def Let_def castable_def matchStage_def matches_def noFilters_def
        paymentStatusStats_def paymentMethodStats_def topProductStats_def salesByDayStats_def
        group_def saleGroup_def storeSum_def descending_def fl_eval example_defs y m d)
  from getSalesStats_ignores_cancelled [of None exQuery exStatsDb]
  have "map_sum id withoutCancelledGroup (getSalesStats None exQuery exStatsDb)
   = getSalesStats None exQuery (exStatsDb\<lparr>sales := [exCompleted]\<rparr>)"
    by (simp only: only)
  with alone obtain r where
    r: "getSalesStats None exQuery exStatsDb = Inr r"
    and strip: "withoutCancelledGroup r
       = \<lparr>totalSales = 1, st_totalAmount = Number 900,
            st_paymentMethods = [\<lparr>g_id = ''tarjeta_credito'', g_count = 1, g_total = Number 900\<rparr>],
            st_paymentStatus = [\<lparr>g_id = ''completado'', g_count = 1, g_total = Number 900\<rparr>],
            topProducts = [\<lparr>productId = 3, productName = ''Cafe'', totalQuantity = Number 1,
                            ps_totalAmount = Number 900\<rparr>],
            salesByDay = [\<lparr>date = ''2024-03-06'', d_count = 1, d_total = Number 900\<rparr>]\<rparr>"
    by (cases "getSalesStats None exQuery exStatsDb") auto
  from arg_cong [OF strip, of totalSales] have a: "totalSales r = 1"
    by (simp add: withoutCancelledGroup_def)
  from arg_cong [OF strip, of st_totalAmount] have b: "st_totalAmount r = Number 900"
    by (simp add: withoutCancelledGroup_def)
  from arg_cong [OF strip, of st_paymentMethods]
  have c: "st_paymentMethods r = [\<lparr>g_id = ''tarjeta_credito'', g_count = 1, g_total = Number 900\<rparr>]"
    by (simp add: withoutCancelledGroup_def)
  from arg_cong [OF strip, of topProducts]
  have d': "topProducts r = [\<lparr>productId = 3, productName = ''Cafe'', totalQuantity = Number 1,
                              ps_totalAmount = Number 900\<rparr>]"
    by (simp add: withoutCancelledGroup_def)
  from arg_cong [OF strip, of salesByDay]
  have e: "salesByDay r = [\<lparr>date = ''2024-03-06'', d_count = 1, d_total = Number 900\<rparr>]"
    by (simp add: withoutCancelledGroup_def)
  from r a b c d' e alone show ?thesis by (simp add: example_defs)
qed

section \<open>A cancelled sale is final\<close>

lemma restoreStock_sales:
  "restoreStock ses ls = Inr ses' \<Longrightarrow> sales (working ses') = sales (working ses)"
proof (induction ls arbitrary: ses)
  case Nil
  then show ?case by simp
next
  case (Cons l rest)
  then show ?case
    by (auto simp: saveStock_Inr split: option.splits sum.splits)
qed

lemma cancelSale_ledger:
  "cancelSale saleId st = (r, st') \<Longrightarrow>
     st' = st \<or> (\<exists>s. findById st saleId = Some s \<and> paymentStatus s \<noteq> ''cancelado''
                     \<and> sales st' = replaceFirst (s\<lparr>paymentStatus := ''cancelado''\<rparr>) (sales st))"
  by (auto simp: cancelSale_def Let_def startTransaction_def abortTransaction_def
      commitTransaction_def replaceSale_def
      split: option.splits if_splits sum.splits
      dest: restoreStock_sales restoreStock_committed)

lemma updatePaymentStatus_Inr:
  "updatePaymentStatus saleId newStatus newMethod st = (Inr s', st') \<Longrightarrow>
     \<exists>s. findById st saleId = Some s \<and> paymentStatus s \<noteq> ''cancelado''
         \<and> s_id s' = s_id s \<and> saleNumber s' = saleNumber s
         \<and> sales st' = replaceFirst s' (sales st)"
  by (auto simp: updatePaymentStatus_def Let_def replaceSale_def split: option.splits if_splits)

lemma updatePaymentStatus_ledger:
  assumes "updatePaymentStatus saleId newStatus newMethod st = (r, st')"
  shows "st' = st \<or> (\<exists>s s'. findById st saleId = Some s \<and> paymentStatus s \<noteq> ''cancelado''
                     \<and> s_id s' = s_id s \<and> saleNumber s' = saleNumber s
                     \<and> sales st' = replaceFirst s' (sales st))"
proof (cases r)
  case (Inl err)
  with assms updatePaymentStatus_error_unchanged [of saleId newStatus newMethod st err st']
  show ?thesis by simp
next
  case (Inr s')
  with assms updatePaymentStatus_Inr [of saleId newStatus newMethod st s' st']
  show ?thesis by blast
qed

lemma find_append_first:
  "find P (xs @ ys) = (case find P xs of None \<Rightarrow> find P ys | Some x \<Rightarrow> Some x)"
  by (induction xs) auto

lemma adjustStock_sales:
  "adjustStock pid quantity operation st = (r, st') \<Longrightarrow> sales st' = sales st"
  by (auto simp: adjustStock_def Let_def saveProductStock_def
      split: option.splits jsnumber.splits if_splits sum.splits)

lemma createSale_ledger:
  "createSale e usr saleData st = (r, st') \<Longrightarrow>
     st' = st \<or> (\<exists>s. r = Inr s \<and> sales st' = sales st @ [s])"
proof (cases r)
  case (Inl err)
  assume "createSale e usr saleData st = (r, st')"
  with Inl createSale_error_unchanged [of e usr saleData st err st'] show ?thesis by simp
next
  case (Inr s)
  assume run: "createSale e usr saleData st = (r, st')"
  with Inr have ok: "createSale e usr saleData st = (Inr s, st')" by simp
  then obtain its where "sd_items saleData = Some its" by (rule createSale_Inr)
  from createSale_Inr_db(2) [OF ok this] Inr show ?thesis by simp
qed

lemma cancelled_stays:
  assumes found: "findById st i = Some s" and dead: "paymentStatus s = ''cancelado''"
  shows "findById (perform c st) i = Some s"
proof (cases c)
  case (CreateSale e usr saleData)
  obtain r st' where run: "createSale e usr saleData st = (r, st')" by (cases "createSale e usr saleData st")
  from createSale_ledger [OF run] found have "findById st' i = Some s"
    by (auto simp: findById_def find_append_first)
  with CreateSale run show ?thesis by simp
next
  case (UpdatePaymentStatus j newStatus newMethod)
  obtain r st' where run: "updatePaymentStatus j newStatus newMethod st = (r, st')"
    by (cases "updatePaymentStatus j newStatus newMethod st")
  from updatePaymentStatus_ledger [OF run] have "findById st' i = Some s"
  proof
    assume "st' = st" with found show ?thesis by simp
  next
    assume "\<exists>s0 s'. findById st j = Some s0 \<and> paymentStatus s0 \<noteq> ''cancelado''
                     \<and> s_id s' = s_id s0 \<and> saleNumber s' = saleNumber s0
                     \<and> sales st' = replaceFirst s' (sales st)"
    then obtain s0 s' where s0: "findById st j = Some s0" and live: "paymentStatus s0 \<noteq> ''cancelado''"
      and sid: "s_id s' = s_id s0" and led: "sales st' = replaceFirst s' (sales st)"
      by blast
    from s0 found dead live have "j \<noteq> i" by auto
    moreover from s0 have "s_id s0 = j" using find_id [of j "sales st" s0] by (simp add: findById_def)
    ultimately have "s_id s' \<noteq> i" using sid by simp
    from find_replaceFirst_other [OF this, of "sales st" s0] s0 sid \<open>s_id s0 = j\<close> led found
    show ?thesis by (simp add: findById_def)
  qed
  with UpdatePaymentStatus run show ?thesis by simp
next
  case (CancelSale j)
  obtain r st' where run: "cancelSale j st = (r, st')" by (cases "cancelSale j st")
  from cancelSale_ledger [OF run] have "findById st' i = Some s"
  proof
    assume "st' = st" with found show ?thesis by simp
  next
    assume "\<exists>s0. findById st j = Some s0 \<and> paymentStatus s0 \<noteq> ''cancelado''
                     \<and> sales st' = replaceFirst (s0\<lparr>paymentStatus := ''cancelado''\<rparr>) (sales st)"
    then obtain s0 where s0: "findById st j = Some s0" and live: "paymentStatus s0 \<noteq> ''cancelado''"
      and led: "sales st' = replaceFirst (s0\<lparr>paymentStatus := ''cancelado''\<rparr>) (sales st)"
      by blast
    from s0 found dead live have "j \<noteq> i" by auto
    moreover from s0 have j: "s_id s0 = j" using find_id [of j "sales st" s0] by (simp add: findById_def)
    ultimately have "s_id (s0\<lparr>paymentStatus := ''cancelado''\<rparr>) \<noteq> i" by simp
    from find_replaceFirst_other [OF this, of "sales st" s0] s0 j led found
    show ?thesis by (simp add: findById_def)
  qed
  with CancelSale run show ?thesis by simp
next
  case (AdjustStock pid quantity operation)
  obtain r st' where run: "adjustStock pid quantity operation st = (r, st')"
    by (cases "adjustStock pid quantity operation st")
  from adjustStock_sales [OF run] found have "findById st' i = Some s"
    by (simp add: findById_def)
  with AdjustStock run show ?thesis by simp
qed

lemma cancelled_stays_for_ever:
  "findById st i = Some s \<Longrightarrow> paymentStatus s = ''cancelado'' \<Longrightarrow>
     findById (performAll cs st) i = Some s"
proof (induction cs arbitrary: st)
  case Nil
  then show ?case by (simp add: performAll_def)
next
  case (Cons c cs)
  from cancelled_stays [OF Cons.prems] have "findById (perform c st) i = Some s" .
  from Cons.IH [OF this Cons.prems(2)] show ?case by (simp add: performAll_def)
qed

lemma cancelled_refuses:
  assumes "findById st i = Some s" and "paymentStatus s = ''cancelado''"
  shows "cancelSale i st = (Inl AlreadyCancelled, st)"
    and "truthy v \<Longrightarrow> updatePaymentStatus i v m st = (Inl CancelledSaleImmutable, st)"
  using assms
  by (auto simp: cancelSale_def Let_def startTransaction_def abortTransaction_def
      updatePaymentStatus_def truthy_def split: option.splits)

lemma find_new:
  "i \<notin> set (map s_id ss) \<Longrightarrow> s_id s = i \<Longrightarrow> find (\<lambda>x. s_id x = i) (ss @ [s]) = Some s"
  by (induction ss) auto

lemma stats_after_cancelled_sale:
  assumes "paymentStatus s = ''cancelado''" and "sales st' = sales st @ [s]"
  shows "map_sum id withoutCancelledGroup (getSalesStats usr q st')
           = map_sum id withoutCancelledGroup (getSalesStats usr q st)"
proof -
  have "st'\<lparr>sales := filter (\<lambda>s. paymentStatus s \<noteq> ''cancelado'') (sales st')\<rparr>
          = st'\<lparr>sales := filter (\<lambda>s. paymentStatus s \<noteq> ''cancelado'') (sales st)\<rparr>"
    using assms by simp
  moreover have "getSalesStats usr q (st'\<lparr>sales := ss\<rparr>) = getSalesStats usr q (st\<lparr>sales := ss\<rparr>)" for ss
    by (simp add: getSalesStats_def Let_def)
  ultimately show ?thesis
    by (simp only: getSalesStats_without_cancelled [symmetric])
qed

text \<open>
  C10, as the claim words it, fails in three places. A status that is not one of the
  three of the enumeration is not stored: the schema refuses the new sale, the reply is
  the server failure of the handler and the store is as it was. A sale created with the
  status cancelled does count in one aggregate of the statistics, the breakdown by
  payment status, in the group of the cancelled sales. And the stock it took can be put
  back through a public operation, the stock adjustment of the product controller.
\<close>

theorem createSale_cancelled_in_breakdown_counterexample:
  "sd_paymentStatus exBornVoid = Some ''anulado''
   \<and> createSale exEnv (Some exUser) exBornVoid exDb = (Inl ServerError, exDb)
   \<and> sd_paymentStatus exBornCancelled = Some ''cancelado''
   \<and> createSale exEnv (Some exUser) exBornCancelled exDb
     = (Inr exCancelled, exDbSold\<lparr>sales := [exCancelled]\<rparr>)
   \<and> map_sum id st_paymentStatus (getSalesStats None exQuery exDb) = Inr []
   \<and> map_sum id st_paymentStatus (getSalesStats None exQuery (exDbSold\<lparr>sales := [exCancelled]\<rparr>))
       = Inr [\<lparr>g_id = ''cancelado'', g_count = 1, g_total = Number 3350\<rparr>]
   \<and> map_option p_stock (products exDb 1) = Some (Number 10)
   \<and> map_option p_stock (products (exDbSold\<lparr>sales := [exCancelled]\<rparr>) 1) = Some (Number 8)
   \<and> map_option p_stock
        (products (snd (adjustStock 1 (Some (Number 2)) (Some ''add'')
                          (exDbSold\<lparr>sales := [exCancelled]\<rparr>))) 1) = Some (Number 10)"
proof -
  have refused: "createSale exEnv (Some exUser) exBornVoid exDb = (Inl ServerError, exDb)"
    by (simp add: example_defs createSale_defs)
  have create: "createSale exEnv (Some exUser) exBornCancelled exDb
     = (Inr exCancelled, exDbSold\<lparr>sales := [exCancelled]\<rparr>)"
    by (simp add: example_defs createSale_defs fun_eq_iff)
  have before: "map_sum id st_paymentStatus (getSalesStats None exQuery exDb) = Inr []"
    by (simp add: getSalesStats_def statsFilters_def Let_def castable_def noFilters_def
        paymentStatusStats_def group_def example_defs)
  have after: "map_sum id st_paymentStatus (getSalesStats None exQuery (exDbSold\<lparr>sales := [exCancelled]\<rparr>))
       = Inr [\<lparr>g_id = ''cancelado'', g_count = 1, g_total = Number 3350\<rparr>]"
    by (simp add: getSalesStats_def statsFilters_def Let_def castable_def matchStage_def matches_def
        noFilters_def paymentStatusStats_def group_def saleGroup_def storeSum_def fl_eval example_defs)
  have adjust: "map_option p_stock
        (products (snd (adjustStock 1 (Some (Number 2)) (Some ''add'')
                          (exDbSold\<lparr>sales := [exCancelled]\<rparr>))) 1) = Some (Number 10)"
    by (simp add: adjustStock_def saveProductStock_def validProduct_def productCategories_def
        Let_def fl_eval example_defs)
  from refused create before after adjust show ?thesis by (simp add: example_defs)
qed

text \<open>
  C10, amended. A creation that succeeds has stored the initial status the caller
  supplied, which is then a status of the enumeration, and pending when none was
  supplied; whatever the status, every product keeps its fields but the stock, from which
  the quantities the request asks of it have been subtracted in order, which is the
  stock less the quantity of the item, rounded, for each item when the items name
  different products. When the status stored is cancelled, the sale changes no aggregate
  of the statistics but the group of the cancelled sales in the breakdown by payment
  status; and after any sequence of creations, status changes, cancellations and stock
  adjustments the sale is still in the ledger as it was stored, its cancellation is
  refused as already cancelled and a change of its status is refused as well, each with
  the store, its products included, as it was: the operations on sales never give its
  stock back.
\<close>

theorem createSale_initial_status:
  assumes ok: "createSale e usr saleData st = (Inr s, st')"
    and its: "sd_items saleData = Some its"
  shows "paymentStatus s = (case sd_paymentStatus saleData of
                              None \<Rightarrow> ''pendiente''
                            | Some v \<Rightarrow> if v = [] then ''pendiente'' else v)
    \<and> paymentStatus s \<in> set paymentStatuses
    \<and> (\<forall>pid pr. products st pid = Some pr \<longrightarrow>
          products st' pid = Some (pr\<lparr>p_stock := taken (p_stock pr) its pid\<rparr>))
    \<and> (distinct (map i_product its) \<longrightarrow>
          (\<forall>it\<in>set its. \<exists>pr. products st (i_product it) = Some pr
              \<and> products st' (i_product it)
                   = Some (pr\<lparr>p_stock := js_sub (p_stock pr) (i_quantity it)\<rparr>)))
    \<and> (paymentStatus s = ''cancelado'' \<longrightarrow>
          (\<forall>usr' q. map_sum id withoutCancelledGroup (getSalesStats usr' q st')
                      = map_sum id withoutCancelledGroup (getSalesStats usr' q st))
          \<and> (\<forall>cs. findById (performAll cs st') (s_id s) = Some s
                \<and> cancelSale (s_id s) (performAll cs st')
                     = (Inl AlreadyCancelled, performAll cs st')
                \<and> kind AlreadyCancelled = InvalidState
                \<and> (\<forall>v m. truthy v \<longrightarrow>
                      updatePaymentStatus (s_id s) v m (performAll cs st')
                        = (Inl CancelledSaleImmutable, performAll cs st'))))"
proof -
  note db = createSale_Inr_db [OF ok its]
  have status: "paymentStatus s = (case sd_paymentStatus saleData of
                              None \<Rightarrow> ''pendiente''
                            | Some v \<Rightarrow> if v = [] then ''pendiente'' else v)"
    by (rule createSale_Inr_fields(3) [OF ok])
  have enum: "paymentStatus s \<in> set paymentStatuses"
    by (rule createSale_Inr_fields(7) [OF ok])
  have stock: "products st' pid = Some (pr\<lparr>p_stock := taken (p_stock pr) its pid\<rparr>)"
    if "products st pid = Some pr" for pid pr
    using db(1) [of pid] that by simp
  have single: "\<exists>pr. products st (i_product it) = Some pr
              \<and> products st' (i_product it)
                   = Some (pr\<lparr>p_stock := js_sub (p_stock pr) (i_quantity it)\<rparr>)"
    if d: "distinct (map i_product its)" and mem: "it \<in> set its" for it
  proof -
    from mem obtain i where i: "i < length its" and it: "its ! i = it"
      by (auto simp: in_set_conv_nth)
    from list_all2_nthD [OF createSale_Inr_items(1) [OF ok its] i] it
    obtain pr where pr: "products st (i_product it) = Some pr" by auto
    from stock [OF pr] taken_distinct [OF d mem, of "p_stock pr"] pr show ?thesis by simp
  qed
  have stored: "findById st' (s_id s) = Some s"
    using db(2) db(3) find_new [of "s_id s" "sales st" s] by (simp add: findById_def)
  have final: "findById (performAll cs st') (s_id s) = Some s
                \<and> cancelSale (s_id s) (performAll cs st')
                     = (Inl AlreadyCancelled, performAll cs st')
                \<and> kind AlreadyCancelled = InvalidState
                \<and> (\<forall>v m. truthy v \<longrightarrow>
                      updatePaymentStatus (s_id s) v m (performAll cs st')
                        = (Inl CancelledSaleImmutable, performAll cs st'))"
    if dead: "paymentStatus s = ''cancelado''" for cs
  proof -
    from cancelled_stays_for_ever [OF stored dead]
    have later: "findById (performAll cs st') (s_id s) = Some s" .
    from cancelled_refuses [OF later dead] later show ?thesis by simp
  qed
  have same: "map_sum id withoutCancelledGroup (getSalesStats usr' q st')
                      = map_sum id withoutCancelledGroup (getSalesStats usr' q st)"
    if dead: "paymentStatus s = ''cancelado''" for usr' q
    by (rule stats_after_cancelled_sale [OF dead db(2)])
  show ?thesis
  proof (intro conjI allI impI ballI)
    show "paymentStatus s = (case sd_paymentStatus saleData of
                              None \<Rightarrow> ''pendiente''
                            | Some v \<Rightarrow> if v = [] then ''pendiente'' else v)"
      by (rule status)
    show "paymentStatus s \<in> set paymentStatuses" by (rule enum)
    show "products st' pid = Some (pr\<lparr>p_stock := taken (p_stock pr) its pid\<rparr>)"
      if "products st pid = Some pr" for pid pr
      using that by (rule stock)
    show "\<exists>pr. products st (i_product it) = Some pr
              \<and> products st' (i_product it)
                   = Some (pr\<lparr>p_stock := js_sub (p_stock pr) (i_quantity it)\<rparr>)"
      if "distinct (map i_product its)" and "it \<in> set its" for it
      using that by (rule single)
  qed (use same final in blast)+
qed

theorem createSale_initial_status_witness:
  "createSale exEnv (Some exUser) exBornCancelled exDb
     = (Inr exCancelled, exDbSold\<lparr>sales := [exCancelled]\<rparr>)
   \<and> sd_paymentStatus exBornCancelled = Some ''cancelado''
   \<and> paymentStatus exCancelled = ''cancelado''
   \<and> sd_items exBornCancelled = Some exItems \<and> distinct (map i_product exItems)
   \<and> products exDb 1 = Some exA \<and> p_stock exA = Number 10
   \<and> products (exDbSold\<lparr>sales := [exCancelled]\<rparr>) 1 = Some (exA\<lparr>p_stock := Number 8\<rparr>)
   \<and> cancelSale 100 (exDbSold\<lparr>sales := [exCancelled]\<rparr>)
       = (Inl AlreadyCancelled, exDbSold\<lparr>sales := [exCancelled]\<rparr>)
   \<and> updatePaymentStatus 100 (Some ''pendiente'') None (exDbSold\<lparr>sales := [exCancelled]\<rparr>)
       = (Inl CancelledSaleImmutable, exDbSold\<lparr>sales := [exCancelled]\<rparr>)
   \<and> map_sum id withoutCancelledGroup (getSalesStats None exQuery (exDbSold\<lparr>sales := [exCancelled]\<rparr>))
       = map_sum id withoutCancelledGroup (getSalesStats None exQuery exDb)
   \<and> fst (createSale exEnv (Some exUser) exData exDb) = Inr exSale
   \<and> sd_paymentStatus exData = None \<and> paymentStatus exSale = ''pendiente''"
proof -
  have ok: "createSale exEnv (Some exUser) exBornCancelled exDb
     = (Inr exCancelled, exDbSold\<lparr>sales := [exCancelled]\<rparr>)"
    by (simp add: example_defs createSale_defs fun_eq_iff)
  have its: "sd_items exBornCancelled = Some exItems" by (simp add: example_defs)
  have dead: "paymentStatus exCancelled = ''cancelado''" by (simp add: example_defs)
  have sid: "s_id exCancelled = 100" by (simp add: example_defs)
  have d: "distinct (map i_product exItems)" by (simp add: exItems_def)
  have a: "products exDb 1 = Some exA" by (simp add: exDb_def)
  have first: "\<lparr>i_product = 1, i_quantity = Number 2, i_discount = None\<rparr> \<in> set exItems"
    by (simp add: exItems_def)
  note facts = createSale_initial_status [OF ok its]
  from facts d first
  have "\<exists>pr. products exDb 1 = Some pr
          \<and> products (exDbSold\<lparr>sales := [exCancelled]\<rparr>) 1
               = Some (pr\<lparr>p_stock := js_sub (p_stock pr) (Number 2)\<rparr>)"
    by fastforce
  with a have stockA: "products (exDbSold\<lparr>sales := [exCancelled]\<rparr>) 1 = Some (exA\<lparr>p_stock := Number 8\<rparr>)"
    by (simp add: exA_def fl_eval Let_def)
  from facts dead
  have stats: "map_sum id withoutCancelledGroup (getSalesStats None exQuery (exDbSold\<lparr>sales := [exCancelled]\<rparr>))
       = map_sum id withoutCancelledGroup (getSalesStats None exQuery exDb)"
    by blast
  from facts dead
  have "cancelSale (s_id exCancelled) (performAll [] (exDbSold\<lparr>sales := [exCancelled]\<rparr>))
                     = (Inl AlreadyCancelled, performAll [] (exDbSold\<lparr>sales := [exCancelled]\<rparr>))"
    by blast
  then have cancel: "cancelSale 100 (exDbSold\<lparr>sales := [exCancelled]\<rparr>)
       = (Inl AlreadyCancelled, exDbSold\<lparr>sales := [exCancelled]\<rparr>)"
    by (simp add: performAll_def sid)
  have t: "truthy (Some ''pendiente'')" by (simp add: truthy_def)
  from facts dead
  have "\<forall>v m. truthy v \<longrightarrow>
          updatePaymentStatus (s_id exCancelled) v m (performAll [] (exDbSold\<lparr>sales := [exCancelled]\<rparr>))
            = (Inl CancelledSaleImmutable, performAll [] (exDbSold\<lparr>sales := [exCancelled]\<rparr>))"
    by blast
  with t have update: "updatePaymentStatus 100 (Some ''pendiente'') None (exDbSold\<lparr>sales := [exCancelled]\<rparr>)
       = (Inl CancelledSaleImmutable, exDbSold\<lparr>sales := [exCancelled]\<rparr>)"
    by (simp add: performAll_def sid)
  have plain: "fst (createSale exEnv (Some exUser) exData exDb) = Inr exSale"
    by (simp add: createSale_exData)
  have rest: "p_stock exA = Number 10 \<and> sd_paymentStatus exBornCancelled = Some ''cancelado''
    \<and> sd_paymentStatus exData = None \<and> paymentStatus exSale = ''pendiente''"
    by (simp add: example_defs)
  from ok dead its d a stockA cancel update stats plain rest show ?thesis by (simp only: simp_thms)
qed

section \<open>What every call keeps\<close>

text \<open>
  The documents of the store satisfy their schemas after every call when they did
  before, and a sequenced ledger stays sequenced: both hold of every store that the calls
  reach from a store where they hold, the empty store for one.
\<close>

lemma saveProductStock_valid:
  assumes "\<forall>pid pr. products st pid = Some pr \<longrightarrow> validProduct pr"
    and "products st i = Some p" and "saveProductStock st i p v = Inr st'"
  shows "(\<forall>pid pr. products st' pid = Some pr \<longrightarrow> validProduct pr) \<and> sales st' = sales st"
proof -
  from assms(3) have "validProduct (p\<lparr>p_stock := v\<rparr>)"
    and st': "st' = st\<lparr>products := (products st)(i \<mapsto> p\<lparr>p_stock := v\<rparr>)\<rparr>"
    by (auto simp: saveProductStock_def split: if_splits)
  with assms(1) show ?thesis by (auto simp: st')
qed

lemma saveStock_valid:
  assumes "\<forall>pid pr. products (working ses) pid = Some pr \<longrightarrow> validProduct pr"
    and "products (working ses) i = Some p" and "saveStock ses i p v = Inr ses'"
  shows "\<forall>pid pr. products (working ses') pid = Some pr \<longrightarrow> validProduct pr"
proof -
  from assms(3) obtain w where w: "saveProductStock (working ses) i p v = Inr w"
    and ses': "ses' = ses\<lparr>working := w\<rparr>"
    by (auto simp: saveStock_def split: sum.splits)
  from saveProductStock_valid [OF assms(1,2) w] ses' show ?thesis by simp
qed

lemma processItems_valid:
  "\<forall>pid pr. products (working ses) pid = Some pr \<longrightarrow> validProduct pr \<Longrightarrow>
   processItems ses its t ls = Inr (ses', t', ls') \<Longrightarrow>
   \<forall>pid pr. products (working ses') pid = Some pr \<longrightarrow> validProduct pr"
proof (induction its arbitrary: ses t ls)
  case Nil
  then show ?case by simp
next
  case (Cons it rest)
  from Cons.prems(2) obtain pr ses1 t1 ls1 where
    pr: "products (working ses) (i_product it) = Some pr"
    and save: "saveStock ses (i_product it) pr (js_sub (p_stock pr) (i_quantity it)) = Inr ses1"
    and rest: "processItems ses1 rest t1 ls1 = Inr (ses', t', ls')"
    by (rule processItems_step)
  from saveStock_valid [OF Cons.prems(1) pr save] Cons.IH [OF _ rest]
  show ?case by blast
qed

lemma restoreStock_valid:
  "\<forall>pid pr. products (working ses) pid = Some pr \<longrightarrow> validProduct pr \<Longrightarrow>
   restoreStock ses ls = Inr ses' \<Longrightarrow>
   \<forall>pid pr. products (working ses') pid = Some pr \<longrightarrow> validProduct pr"
proof (induction ls arbitrary: ses)
  case Nil
  then show ?case by simp
next
  case (Cons l rest)
  show ?case
  proof (cases "products (working ses) (si_product l)")
    case None
    with Cons.prems(2) have "restoreStock ses rest = Inr ses'" by simp
    from Cons.IH [OF Cons.prems(1) this] show ?thesis .
  next
    case (Some pr)
    with Cons.prems(2) obtain ses1 where
      save: "saveStock ses (si_product l) pr
               (js_add (p_stock pr) (si_quantity l)) = Inr ses1"
      and rest: "restoreStock ses1 rest = Inr ses'"
      by (auto split: sum.splits)
    from saveStock_valid [OF Cons.prems(1) Some save] Cons.IH [OF _ rest]
    show ?thesis by blast
  qed
qed

lemma validSale_replaceFirst:
  "list_all validSale ss \<Longrightarrow> validSale s' \<Longrightarrow> list_all validSale (replaceFirst s' ss)"
  by (induction ss) auto

lemma createSale_valid:
  assumes valid: "schemaValid st" and run: "createSale e usr saleData st = (r, st')"
  shows "schemaValid st'"
proof (cases r)
  case (Inl err)
  with run createSale_error_unchanged [of e usr saleData st err st'] valid show ?thesis by simp
next
  case (Inr s)
  with run have ok: "createSale e usr saleData st = (Inr s, st')" by simp
  then obtain its u ses' totalAmt ls ses'' where
    its: "sd_items saleData = Some its"
    and loop: "processItems (startTransaction st) its (Number 0) [] = Inr (ses', totalAmt, ls)"
    and save: "saveNewSale ses'
           (newSale e u saleData (formatSaleNumber (getFullYear (now e)) (countDocuments st + 1))
              ls totalAmt) = Inr (s, ses'')"
    and st': "st' = working ses''"
    by (rule createSale_Inr)
  from valid have "\<forall>pid pr. products (working (startTransaction st)) pid = Some pr \<longrightarrow> validProduct pr"
    by (simp add: schemaValid_def startTransaction_def)
  from processItems_valid [OF this loop] saveNewSale_Inr(5) [OF save] st'
  have prods: "\<forall>pid pr. products st' pid = Some pr \<longrightarrow> validProduct pr" by simp
  from saveNewSale_Inr(7) [OF save] have "validSale s" .
  with valid createSale_Inr_db(2) [OF ok its] have "list_all validSale (sales st')"
    by (simp add: schemaValid_def)
  with prods show ?thesis by (simp add: schemaValid_def)
qed

lemma cancelSale_valid:
  assumes valid: "schemaValid st" and run: "cancelSale saleId st = (r, st')"
  shows "schemaValid st'"
proof (cases r)
  case (Inl err)
  with run cancelSale_error_unchanged [of saleId st err st'] valid show ?thesis by simp
next
  case (Inr s')
  with run obtain s ses' where found: "findById st saleId = Some s"
    and restore: "restoreStock (startTransaction st) (items s) = Inr ses'"
    and st': "st' = replaceSale (working ses') (s\<lparr>paymentStatus := ''cancelado''\<rparr>)"
    and new: "validSale (s\<lparr>paymentStatus := ''cancelado''\<rparr>)"
    by (auto simp: cancelSale_def Let_def startTransaction_def abortTransaction_def
        commitTransaction_def split: option.splits if_splits sum.splits)
  from valid have "\<forall>pid pr. products (working (startTransaction st)) pid = Some pr \<longrightarrow> validProduct pr"
    by (simp add: schemaValid_def startTransaction_def)
  from restoreStock_valid [OF this restore]
  have prods: "\<forall>pid pr. products st' pid = Some pr \<longrightarrow> validProduct pr"
    by (simp add: st' replaceSale_def)
  from new valid restoreStock_sales [OF restore]
  have "list_all validSale (sales st')"
    by (simp add: st' replaceSale_def schemaValid_def startTransaction_def validSale_replaceFirst)
  with prods show ?thesis by (simp add: schemaValid_def)
qed

lemma updatePaymentStatus_valid:
  assumes valid: "schemaValid st" and run: "updatePaymentStatus saleId newStatus newMethod st = (r, st')"
  shows "schemaValid st'"
proof (cases r)
  case (Inl err)
  with run updatePaymentStatus_error_unchanged [of saleId newStatus newMethod st err st'] valid
  show ?thesis by simp
next
  case (Inr s')
  with run have st': "st' = replaceSale st s'" and "validSale s'"
    by (auto simp: updatePaymentStatus_def Let_def split: option.splits if_splits)
  with valid show ?thesis
    by (simp add: st' replaceSale_def schemaValid_def validSale_replaceFirst)
qed

lemma adjustStock_valid:
  assumes valid: "schemaValid st" and run: "adjustStock pid quantity operation st = (r, st')"
  shows "schemaValid st'"
proof -
  from run have "st' = st
      \<or> (\<exists>p v. products st pid = Some p \<and> saveProductStock st pid p v = Inr st')"
    by (auto simp: adjustStock_def Let_def
        split: option.splits jsnumber.splits if_splits sum.splits)
  then show ?thesis
  proof
    assume "st' = st" with valid show ?thesis by simp
  next
    assume "\<exists>p v. products st pid = Some p \<and> saveProductStock st pid p v = Inr st'"
    then obtain p v where p: "products st pid = Some p"
      and save: "saveProductStock st pid p v = Inr st'"
      by blast
    from valid have "\<forall>pid pr. products st pid = Some pr \<longrightarrow> validProduct pr"
      by (simp add: schemaValid_def)
    from saveProductStock_valid [OF this p save] valid show ?thesis
      by (simp add: schemaValid_def)
  qed
qed

lemma schemaValid_perform: "schemaValid st \<Longrightarrow> schemaValid (perform c st)"
proof (cases c)
  case (CreateSale e usr saleData)
  assume "schemaValid st"
  from createSale_valid [OF this, of e usr saleData] CreateSale show ?thesis
    by (cases "createSale e usr saleData st") simp
next
  case (UpdatePaymentStatus saleId newStatus newMethod)
  assume "schemaValid st"
  from updatePaymentStatus_valid [OF this, of saleId newStatus newMethod] UpdatePaymentStatus
  show ?thesis
    by (cases "updatePaymentStatus saleId newStatus newMethod st") simp
next
  case (CancelSale saleId)
  assume "schemaValid st"
  from cancelSale_valid [OF this, of saleId] CancelSale show ?thesis
    by (cases "cancelSale saleId st") simp
next
  case (AdjustStock pid quantity operation)
  assume "schemaValid st"
  from adjustStock_valid [OF this, of pid quantity operation] AdjustStock show ?thesis
    by (cases "adjustStock pid quantity operation st") simp
qed

lemma schemaValid_performAll: "schemaValid st \<Longrightarrow> schemaValid (performAll cs st)"
proof (induction cs arbitrary: st)
  case Nil
  then show ?case by (simp add: performAll_def)
next
  case (Cons c cs)
  from Cons.IH [OF schemaValid_perform [OF Cons.prems]] show ?case
    by (simp add: performAll_def)
qed

lemma schemaValid_empty: "schemaValid \<lparr>products = Map.empty, sales = []\<rparr>"
  by (simp add: schemaValid_def)

lemma sequenced_perform: "sequenced (sales st) \<Longrightarrow> sequenced (sales (perform c st))"
proof (cases c)
  case (CreateSale e usr saleData)
  assume inv: "sequenced (sales st)"
  obtain r st' where run: "createSale e usr saleData st = (r, st')"
    by (cases "createSale e usr saleData st")
  have "sequenced (sales st')"
  proof (cases r)
    case (Inl err)
    with run createSale_error_unchanged [of e usr saleData st err st'] inv show ?thesis by simp
  next
    case (Inr s)
    with run have ok: "createSale e usr saleData st = (Inr s, st')" by simp
    then obtain its where its: "sd_items saleData = Some its" by (rule createSale_Inr)
    from createSale_Inr_fields(2) [OF ok]
    have "seqOf (saleNumber s) = length (sales st) + 1" by (simp add: seqOf_formatSaleNumber)
    with sequenced_snoc [OF inv, of s] createSale_Inr_db(2) [OF ok its] show ?thesis by simp
  qed
  with CreateSale run show ?thesis by simp
next
  case (UpdatePaymentStatus saleId newStatus newMethod)
  assume inv: "sequenced (sales st)"
  obtain r st' where run: "updatePaymentStatus saleId newStatus newMethod st = (r, st')"
    by (cases "updatePaymentStatus saleId newStatus newMethod st")
  from updatePaymentStatus_ledger [OF run] have "sequenced (sales st')"
  proof
    assume "st' = st" with inv show ?thesis by simp
  next
    assume "\<exists>s s'. findById st saleId = Some s \<and> paymentStatus s \<noteq> ''cancelado''
                     \<and> s_id s' = s_id s \<and> saleNumber s' = saleNumber s
                     \<and> sales st' = replaceFirst s' (sales st)"
    then obtain s s' where found: "findById st saleId = Some s" and sid: "s_id s' = s_id s"
      and num: "saleNumber s' = saleNumber s" and led: "sales st' = replaceFirst s' (sales st)"
      by blast
    from found have "s_id s = saleId" using find_id [of saleId "sales st" s] by (simp add: findById_def)
    with found sid have "find (\<lambda>x. s_id x = s_id s') (sales st) = Some s" by (simp add: findById_def)
    from replaceFirst_numbers [OF this num]
    have "map saleNumber (replaceFirst s' (sales st)) = map saleNumber (sales st)" .
    then have "sequenced (replaceFirst s' (sales st)) = sequenced (sales st)"
      by (rule sequenced_map_eq)
    with led inv show ?thesis by simp
  qed
  with UpdatePaymentStatus run show ?thesis by simp
next
  case (CancelSale saleId)
  assume inv: "sequenced (sales st)"
  obtain r st' where run: "cancelSale saleId st = (r, st')" by (cases "cancelSale saleId st")
  from cancelSale_ledger [OF run] have "sequenced (sales st')"
  proof
    assume "st' = st" with inv show ?thesis by simp
  next
    assume "\<exists>s. findById st saleId = Some s \<and> paymentStatus s \<noteq> ''cancelado''
                     \<and> sales st' = replaceFirst (s\<lparr>paymentStatus := ''cancelado''\<rparr>) (sales st)"
    then obtain s where found: "findById st saleId = Some s"
      and led: "sales st' = replaceFirst (s\<lparr>paymentStatus := ''cancelado''\<rparr>) (sales st)"
      by blast
    from found have "s_id s = saleId" using find_id [of saleId "sales st" s] by (simp add: findById_def)
    with found have "find (\<lambda>x. s_id x = s_id (s\<lparr>paymentStatus := ''cancelado''\<rparr>)) (sales st) = Some s"
      by (simp add: findById_def)
    from replaceFirst_numbers [OF this]
    have "map saleNumber (replaceFirst (s\<lparr>paymentStatus := ''cancelado''\<rparr>) (sales st))
            = map saleNumber (sales st)"
      by simp
    then have "sequenced (replaceFirst (s\<lparr>paymentStatus := ''cancelado''\<rparr>) (sales st))
                 = sequenced (sales st)"
      by (rule sequenced_map_eq)
    with led inv show ?thesis by simp
  qed
  with CancelSale run show ?thesis by simp
next
  case (AdjustStock pid quantity operation)
  assume inv: "sequenced (sales st)"
  obtain r st' where run: "adjustStock pid quantity operation st = (r, st')"
    by (cases "adjustStock pid quantity operation st")
  from adjustStock_sales [OF run] inv AdjustStock run show ?thesis by simp
qed

lemma sequenced_performAll: "sequenced (sales st) \<Longrightarrow> sequenced (sales (performAll cs st))"
proof (induction cs arbitrary: st)
  case Nil
  then show ?case by (simp add: performAll_def)
next
  case (Cons c cs)
  from Cons.IH [OF sequenced_perform [OF Cons.prems]] show ?case
    by (simp add: performAll_def)
qed

text \<open>
  The stocks of the store are doubles after every call when they were before: a stock
  that is written is the rounded result of an operation, or the quantity of a stock
  adjustment, which is a double as every number of a request is.
\<close>

lemma js_sub_double: "js_le (Number 0) (js_sub a b) \<Longrightarrow> isDouble (js_sub a b)"
  by (cases a; cases b) (auto simp: isDouble_fl_nonneg, auto simp: isDouble_def)

lemma js_add_double: "js_le (Number 0) (js_add a b) \<Longrightarrow> isDouble (js_add a b)"
  by (cases a; cases b) (auto simp: isDouble_fl_nonneg, auto simp: isDouble_def)

lemma saveProductStock_doubles:
  assumes "stockDoubles st" and "isDouble v" and "saveProductStock st i p v = Inr st'"
  shows "stockDoubles st'"
proof -
  from assms(3) have st': "st' = st\<lparr>products := (products st)(i \<mapsto> p\<lparr>p_stock := v\<rparr>)\<rparr>"
    by (auto simp: saveProductStock_def split: if_splits)
  with assms(1,2) show ?thesis by (auto simp: stockDoubles_def)
qed

lemma saveStock_doubles:
  assumes "stockDoubles (working ses)" and "js_le (Number 0) v \<Longrightarrow> isDouble v"
    and "saveStock ses i p v = Inr ses'"
  shows "stockDoubles (working ses')"
proof -
  from assms(3) have valid: "validProduct (p\<lparr>p_stock := v\<rparr>)"
    and ses': "working ses' = (working ses)\<lparr>products := (products (working ses))(i \<mapsto> p\<lparr>p_stock := v\<rparr>)\<rparr>"
    by (auto simp: saveStock_Inr)
  from valid have "js_le (Number 0) v" by (rule validProduct_stock(1))
  with assms(2) have "isDouble v" by simp
  with assms(1) show ?thesis by (auto simp: stockDoubles_def ses')
qed

lemma processItems_doubles:
  "stockDoubles (working ses) \<Longrightarrow> processItems ses its t ls = Inr (ses', t', ls') \<Longrightarrow>
     stockDoubles (working ses')"
proof (induction its arbitrary: ses t ls)
  case Nil
  then show ?case by simp
next
  case (Cons it rest)
  from Cons.prems(2) obtain pr ses1 t1 ls1 where
    save: "saveStock ses (i_product it) pr (js_sub (p_stock pr) (i_quantity it)) = Inr ses1"
    and rest: "processItems ses1 rest t1 ls1 = Inr (ses', t', ls')"
    by (rule processItems_step)
  from saveStock_doubles [OF Cons.prems(1) js_sub_double save] Cons.IH [OF _ rest]
  show ?case by blast
qed

lemma restoreStock_doubles:
  "stockDoubles (working ses) \<Longrightarrow> restoreStock ses ls = Inr ses' \<Longrightarrow>
     stockDoubles (working ses')"
proof (induction ls arbitrary: ses)
  case Nil
  then show ?case by simp
next
  case (Cons l rest)
  show ?case
  proof (cases "products (working ses) (si_product l)")
    case None
    with Cons.prems(2) have "restoreStock ses rest = Inr ses'" by simp
    from Cons.IH [OF Cons.prems(1) this] show ?thesis .
  next
    case (Some pr)
    with Cons.prems(2) obtain ses1 where
      save: "saveStock ses (si_product l) pr (js_add (p_stock pr) (si_quantity l)) = Inr ses1"
      and rest: "restoreStock ses1 rest = Inr ses'"
      by (auto split: sum.splits)
    from saveStock_doubles [OF Cons.prems(1) js_add_double save] Cons.IH [OF _ rest]
    show ?thesis by blast
  qed
qed

lemma stockDoubles_sales [simp]: "stockDoubles (st\<lparr>sales := ss\<rparr>) = stockDoubles st"
  by (simp add: stockDoubles_def)

lemma stockDoubles_perform:
  assumes inv: "stockDoubles st" and c: "doubleCall c"
  shows "stockDoubles (perform c st)"
proof (cases c)
  case (CreateSale e usr saleData)
  obtain r st' where run: "createSale e usr saleData st = (r, st')"
    by (cases "createSale e usr saleData st")
  have "stockDoubles st'"
  proof (cases r)
    case (Inl err)
    with run createSale_error_unchanged [of e usr saleData st err st'] inv show ?thesis by simp
  next
    case (Inr s)
    with run have "createSale e usr saleData st = (Inr s, st')" by simp
    then obtain its u ses' totalAmt ls ses'' where
      loop: "processItems (startTransaction st) its (Number 0) [] = Inr (ses', totalAmt, ls)"
      and save: "saveNewSale ses'
           (newSale e u saleData (formatSaleNumber (getFullYear (now e)) (countDocuments st + 1))
              ls totalAmt) = Inr (s, ses'')"
      and st': "st' = working ses''"
      by (rule createSale_Inr)
    from inv have "stockDoubles (working (startTransaction st))" by (simp add: startTransaction_def)
    from processItems_doubles [OF this loop] saveNewSale_Inr(5) [OF save] st'
    show ?thesis by (simp add: stockDoubles_def)
  qed
  with CreateSale run show ?thesis by simp
next
  case (UpdatePaymentStatus saleId newStatus newMethod)
  obtain r st' where run: "updatePaymentStatus saleId newStatus newMethod st = (r, st')"
    by (cases "updatePaymentStatus saleId newStatus newMethod st")
  from updatePaymentStatus_products [OF run] inv have "stockDoubles st'"
    by (simp add: stockDoubles_def)
  with UpdatePaymentStatus run show ?thesis by simp
next
  case (CancelSale saleId)
  obtain r st' where run: "cancelSale saleId st = (r, st')" by (cases "cancelSale saleId st")
  have "stockDoubles st'"
  proof (cases r)
    case (Inl err)
    with run cancelSale_error_unchanged [of saleId st err st'] inv show ?thesis by simp
  next
    case (Inr s')
    with run obtain s ses' where
      restore: "restoreStock (startTransaction st) (items s) = Inr ses'"
      and st': "st' = replaceSale (working ses') (s\<lparr>paymentStatus := ''cancelado''\<rparr>)"
      by (auto simp: cancelSale_def Let_def startTransaction_def abortTransaction_def
          commitTransaction_def split: option.splits if_splits sum.splits)
    from inv have "stockDoubles (working (startTransaction st))" by (simp add: startTransaction_def)
    from restoreStock_doubles [OF this restore] show ?thesis
      by (simp add: st' replaceSale_def)
  qed
  with CancelSale run show ?thesis by simp
next
  case (AdjustStock pid quantity operation)
  obtain r st' where run: "adjustStock pid quantity operation st = (r, st')"
    by (cases "adjustStock pid quantity operation st")
  from run have "st' = st
      \<or> (\<exists>p q v. products st pid = Some p \<and> quantity = Some q
            \<and> (v = js_add (p_stock p) q \<or> v = js_sub (p_stock p) q \<or> v = q)
            \<and> saveProductStock st pid p v = Inr st')"
    by (auto simp: adjustStock_def Let_def split: option.splits if_splits sum.splits)
  then have "stockDoubles st'"
  proof
    assume "st' = st" with inv show ?thesis by simp
  next
    assume "\<exists>p q v. products st pid = Some p \<and> quantity = Some q
            \<and> (v = js_add (p_stock p) q \<or> v = js_sub (p_stock p) q \<or> v = q)
            \<and> saveProductStock st pid p v = Inr st'"
    then obtain p q v where q: "quantity = Some q"
      and v: "v = js_add (p_stock p) q \<or> v = js_sub (p_stock p) q \<or> v = q"
      and save: "saveProductStock st pid p v = Inr st'"
      by blast
    from save have "validProduct (p\<lparr>p_stock := v\<rparr>)"
      by (auto simp: saveProductStock_def split: if_splits)
    then have "js_le (Number 0) v" by (rule validProduct_stock(1))
    moreover from c AdjustStock q have "isDouble q" by (simp add: doubleCall_def)
    ultimately have "isDouble v" using v js_add_double js_sub_double by blast
    from saveProductStock_doubles [OF inv this save] show ?thesis .
  qed
  with AdjustStock run show ?thesis by simp
qed

lemma stockDoubles_performAll:
  "stockDoubles st \<Longrightarrow> list_all doubleCall cs \<Longrightarrow> stockDoubles (performAll cs st)"
proof (induction cs arbitrary: st)
  case Nil
  then show ?case by (simp add: performAll_def)
next
  case (Cons c cs)
  from Cons.prems(2) have c: "doubleCall c" and cs: "list_all doubleCall cs" by simp_all
  from Cons.IH [OF stockDoubles_perform [OF Cons.prems(1) c] cs] show ?case
    by (simp add: performAll_def)
qed

lemma stockDoubles_empty: "stockDoubles \<lparr>products = Map.empty, sales = []\<rparr>"
  by (simp add: stockDoubles_def)

end
